(* ===== verification/Watch_Prelude.thy ===== *)
theory Watch_Prelude
  imports Main "HOL-Library.Word"
begin

text \<open>
  Shared ground of the development: the machine integer types, the C library operations on
  character arrays that the watch firmware uses (\<open>strncpy\<close>, \<open>strcpy\<close>, \<open>memcpy\<close>,
  \<open>memchr\<close>), the error codes, and the collections of simplification rules the component
  theories share. A C array of characters is the list of all its characters, the ones behind
  the terminating NUL included, because the firmware copies and hashes whole arrays.
\<close>

unbundle bit_operations_syntax

section \<open>Machine types and error codes\<close>

type_synonym u8 = "8 word"
type_synonym u16 = "16 word"
type_synonym i16 = "16 word"
type_synonym u32 = "32 word"
type_synonym i32 = "32 word"
type_synonym u64 = "64 word"
type_synonym i64 = "64 word"

text \<open>
  A C function that returns 0 or a negative error code returns \<open>errno + 'a\<close>: \<open>Inl e\<close> is
  \<open>-e\<close>, \<open>Inr x\<close> is success with the value it stores through its out parameter.
\<close>

datatype errno =
    EINVAL | ERANGE | ENOSPC | ENOENT | EPERM | EIO | ENOTCONN | EBADMSG | ENOTSUP
  | ENAMETOOLONG | ENODEV

text \<open>A fallible step followed by one that cannot fail.\<close>

lemma case_result_iff:
  "(case r of Inl e \<Rightarrow> Inl e | Inr x \<Rightarrow> Inr (f x)) = Inr v \<longleftrightarrow> (\<exists>x. r = Inr x \<and> v = f x)"
  by (cases r) auto

named_theorems clib_simps \<open>facts about the C library operations on character arrays\<close>
named_theorems wf_intros \<open>introduction rules for the well-formedness of the model's records\<close>
named_theorems width_simps \<open>facts that move between machine words and natural numbers\<close>

section \<open>Characters and strings of C\<close>

definition NUL :: char where
  "NUL = CHR 0x00"

text \<open>The value of a \<open>char\<close> object (signed on the simulator's target) and its byte.\<close>

definition u8_of_char :: "char \<Rightarrow> u8" where
  "u8_of_char c = of_char c"

definition char_of_u8 :: "u8 \<Rightarrow> char" where
  "char_of_u8 b = char_of (unat b)"

definition schar :: "char \<Rightarrow> int" where
  "schar c = sint (u8_of_char c)"

text \<open>The C string held by an array: what precedes the first NUL.\<close>

definition cstr :: "string \<Rightarrow> string" where
  "cstr s = takeWhile (\<lambda>c. c \<noteq> NUL) s"

text \<open>An array of \<open>n\<close> characters that holds a C string.\<close>

definition cstring_array :: "nat \<Rightarrow> string \<Rightarrow> bool" where
  "cstring_array n s \<longleftrightarrow> length s = n \<and> NUL \<in> set s"

definition zero_array :: "nat \<Rightarrow> string" where
  "zero_array n = replicate n NUL"

definition memcpy :: "string \<Rightarrow> string \<Rightarrow> nat \<Rightarrow> string" where
  "memcpy dst src n = take n src @ drop n dst"

definition strcpy :: "string \<Rightarrow> string \<Rightarrow> string" where
  "strcpy dst src = cstr src @ [NUL] @ drop (length (cstr src) + 1) dst"

definition strncpy :: "string \<Rightarrow> string \<Rightarrow> nat \<Rightarrow> string" where
  "strncpy dst src n = take n (cstr src @ replicate n NUL) @ drop n dst"

text \<open>
  The idiom \<open>strncpy(dst, src, sizeof(dst) - 1); dst[sizeof(dst) - 1] = '\0'\<close>, which the
  firmware uses at every bounded copy.
\<close>

definition strncpy_terminated :: "string \<Rightarrow> string \<Rightarrow> string" where
  "strncpy_terminated dst src =
     (strncpy dst src (length dst - 1))[length dst - 1 := NUL]"

subsection \<open>Lemmas on C strings\<close>

lemma Char_eq_NUL [simp]:
  "Char b0 b1 b2 b3 b4 b5 b6 b7 = NUL \<longleftrightarrow>
     \<not> b0 \<and> \<not> b1 \<and> \<not> b2 \<and> \<not> b3 \<and> \<not> b4 \<and> \<not> b5 \<and> \<not> b6 \<and> \<not> b7"
  "NUL = Char b0 b1 b2 b3 b4 b5 b6 b7 \<longleftrightarrow>
     \<not> b0 \<and> \<not> b1 \<and> \<not> b2 \<and> \<not> b3 \<and> \<not> b4 \<and> \<not> b5 \<and> \<not> b6 \<and> \<not> b7"
  by (auto simp: NUL_def)

lemma cstr_Cons [simp, clib_simps]: "cstr (c # s) = (if c = NUL then [] else c # cstr s)"
  by (simp add: cstr_def)

lemma cstr_Nil [simp, clib_simps]: "cstr [] = []"
  by (simp add: cstr_def)

lemma cstr_no_NUL [simp, clib_simps]: "NUL \<notin> set s \<Longrightarrow> cstr s = s"
  by (auto simp: cstr_def takeWhile_eq_all_conv)

lemma NUL_notin_cstr [simp, clib_simps]: "NUL \<notin> set (cstr s)"
  unfolding cstr_def by (auto dest: set_takeWhileD)

lemma cstr_append_NUL [simp, clib_simps]: "NUL \<notin> set s \<Longrightarrow> cstr (s @ NUL # t) = s"
  by (simp add: cstr_def takeWhile_append)

lemma cstr_append [clib_simps]:
  "cstr (s @ t) = (if NUL \<in> set s then cstr s else s @ cstr t)"
  by (auto simp: cstr_def takeWhile_append)

lemma length_cstr_less: "NUL \<in> set s \<Longrightarrow> length (cstr s) < length s"
proof (induction s)
  case Nil
  then show ?case by simp
next
  case (Cons c s)
  then show ?case by (cases "c = NUL") (auto simp: cstr_def)
qed

lemma cstr_take: "cstr (take n (cstr s)) = take n (cstr s)"
  by (rule cstr_no_NUL) (meson NUL_notin_cstr in_set_takeD)

lemma NUL_notin_take_cstr [simp]: "NUL \<notin> set (take n (cstr s))"
  by (meson NUL_notin_cstr in_set_takeD)

lemma length_memcpy: "n \<le> length src \<Longrightarrow> n \<le> length dst \<Longrightarrow> length (memcpy dst src n) = length dst"
  by (simp add: memcpy_def)

lemma length_strcpy [clib_simps]:
  "length (cstr src) < length dst \<Longrightarrow> length (strcpy dst src) = length dst"
  by (simp add: strcpy_def)

lemma cstr_strcpy [simp, clib_simps]: "cstr (strcpy dst src) = cstr src"
  by (simp add: strcpy_def)

lemma cstring_array_strcpy [wf_intros]:
  "length dst = n \<Longrightarrow> length (cstr src) < n \<Longrightarrow> cstring_array n (strcpy dst src)"
  by (simp add: cstring_array_def strcpy_def)

lemma length_strncpy_terminated [simp, clib_simps]:
  "length (strncpy_terminated dst src) = length dst"
  by (simp add: strncpy_terminated_def strncpy_def)

text \<open>The idiom overwrites the whole array: the first characters, then only NULs.\<close>

lemma strncpy_terminated_eq:
  assumes "length dst = Suc n"
  shows "strncpy_terminated dst src =
           take n (cstr src) @ replicate (n - length (cstr src)) NUL @ [NUL]"
proof -
  from assms obtain l where last: "drop n dst = [l]"
    by (metis Suc_length_conv append_eq_conv_conj append_take_drop_id length_0_conv length_drop
        diff_Suc_1 diff_Suc_Suc Suc_diff_le le_refl diff_self_eq_0 length_take)
  then have "strncpy_terminated dst src =
      (take n (cstr src) @ replicate (n - length (cstr src)) NUL @ [l])[n := NUL]"
    using assms by (simp add: strncpy_terminated_def strncpy_def min_def)
  then show ?thesis
    by (auto simp: list_update_append min_def)
qed

lemma cstr_strncpy_terminated [clib_simps]:
  assumes "length dst = Suc n"
  shows "cstr (strncpy_terminated dst src) = take n (cstr src)"
  using assms
  by (cases "n - length (cstr src)") (simp_all add: strncpy_terminated_eq)

lemma cstring_array_strncpy_terminated [wf_intros]:
  assumes "length dst = n" and "0 < n"
  shows "cstring_array n (strncpy_terminated dst src)"
  using assms
  by (auto simp: cstring_array_def strncpy_terminated_def strncpy_def set_update_memI)

lemma strncpy_terminated_cong:
  "length dst = Suc n \<Longrightarrow> length dst' = Suc n \<Longrightarrow> cstr src = cstr src' \<Longrightarrow>
   strncpy_terminated dst src = strncpy_terminated dst' src'"
  by (simp add: strncpy_terminated_eq)

lemma cstring_array_zero [simp, wf_intros]: "0 < n \<Longrightarrow> cstring_array n (zero_array n)"
  by (simp add: cstring_array_def zero_array_def)

lemma length_zero_array [simp]: "length (zero_array n) = n"
  by (simp add: zero_array_def)

lemma cstr_zero_array [simp, clib_simps]: "cstr (zero_array n) = []"
  by (cases n) (simp_all add: zero_array_def cstr_def)

lemma cstring_array_length [dest]: "cstring_array n s \<Longrightarrow> length s = n"
  by (simp add: cstring_array_def)

lemma cstring_array_fits: "cstring_array n s \<Longrightarrow> length (cstr s) < n"
  by (auto simp: cstring_array_def intro: length_cstr_less)

subsection \<open>Bytes and characters\<close>

lemma unat_u8_less [simp]: "unat (b :: u8) < 256"
  using unsigned_less [of b, where 'a = nat] by simp

lemma unat_u32_less [simp]: "unat (w :: u32) < 4294967296"
  using unsigned_less [of w, where 'a = nat] by simp

lemma unat_ucast_u32_u64 [width_simps]: "unat (ucast (w :: u32) :: u64) = unat w"
  by (simp add: unsigned_ucast_eq take_bit_nat_eq_self less_trans [OF unat_u32_less])

lemma ucast_u64_u32 [width_simps]:
  "unat (w :: u64) < 2 ^ 32 \<Longrightarrow> unat (ucast w :: u32) = unat w"
  by (simp add: unsigned_ucast_eq take_bit_nat_eq_self)

lemma unat_u8_of_char [width_simps]: "unat (u8_of_char c) = of_char c"
proof -
  have "u8_of_char c = word_of_nat (of_char c)"
    by (simp add: u8_of_char_def of_nat_of_char)
  moreover have "(of_char c :: nat) < 2 ^ LENGTH(8)"
    using nat_of_char_less_256 [of c] by simp
  ultimately show ?thesis
    by (simp add: unat_of_nat)
qed

lemma char_of_u8_of_char [simp]: "char_of_u8 (u8_of_char c) = c"
  by (simp add: char_of_u8_def unat_u8_of_char)

lemma u8_of_char_of_u8 [simp]: "u8_of_char (char_of_u8 b) = b"
proof -
  have "unat (u8_of_char (char_of_u8 b)) = unat b"
    by (simp add: unat_u8_of_char char_of_u8_def of_char_of)
  then show ?thesis by (simp add: word_unat_eq_iff)
qed

section \<open>Machines with an invariant\<close>

text \<open>
  The interface of an event-driven component: a step function, a predicate on events that the
  environment guarantees, and an invariant the steps keep. What holds of one step then holds
  of every run.
\<close>

definition run_machine :: "('s \<Rightarrow> 'e \<Rightarrow> 's) \<Rightarrow> 's \<Rightarrow> 'e list \<Rightarrow> 's" where
  "run_machine step s es = foldl step s es"

lemma run_machine_simps [simp]:
  "run_machine step s [] = s"
  "run_machine step s (e # es) = run_machine step (step s e) es"
  "run_machine step s (es @ es') = run_machine step (run_machine step s es) es'"
  by (simp_all add: run_machine_def)

locale invariant_machine =
  fixes step :: "'s \<Rightarrow> 'e \<Rightarrow> 's"
    and event_ok :: "'e \<Rightarrow> bool"
    and inv :: "'s \<Rightarrow> bool"
  assumes step_inv: "inv s \<Longrightarrow> event_ok e \<Longrightarrow> inv (step s e)"
begin

lemma run_inv: "inv s \<Longrightarrow> list_all event_ok es \<Longrightarrow> inv (run_machine step s es)"
  by (induction es arbitrary: s) (simp_all add: step_inv)

lemma run_prefix_inv:
  "inv s \<Longrightarrow> list_all event_ok (es @ es') \<Longrightarrow> inv (run_machine step s es)"
  by (simp add: run_inv)

end

end
