(* ===== verification/Watch_State.thy ===== *)
theory Watch_State
  imports Watch_Prelude
begin

text \<open>
  The watch's central data (\<open>watch/src/state/watch_state.h\<close> and \<open>watch_state.c\<close>): the
  screens, the connection state, the bounded notification list and \<open>struct watch_state\<close>,
  with initialisation, the reset of the host-owned fields, and browsing of notifications.
  The invariant \<open>wf_state\<close> says that every array is a terminated C string of its declared
  size, that the screen is one of the five, and that the notification cursor is in range.
\<close>

section \<open>Screens\<close>

text \<open>
  \<open>enum watch_screen\<close>. A C object of this type can hold any integer, and the firmware checks
  for that (\<open>default:\<close> branches, the range check of the cache), so the values past the last
  enumerator are \<open>WATCH_SCREEN_BEYOND n\<close>, the integer \<open>6 + n\<close>.
\<close>

datatype watch_screen =
    WATCH_SCREEN_HOME
  | WATCH_SCREEN_NOTIFICATIONS
  | WATCH_SCREEN_MUSIC
  | WATCH_SCREEN_ASSISTANT
  | WATCH_SCREEN_SETTINGS
  | WATCH_SCREEN_COUNT
  | WATCH_SCREEN_BEYOND nat

fun screen_num :: "watch_screen \<Rightarrow> nat" where
  "screen_num WATCH_SCREEN_HOME = 0"
| "screen_num WATCH_SCREEN_NOTIFICATIONS = 1"
| "screen_num WATCH_SCREEN_MUSIC = 2"
| "screen_num WATCH_SCREEN_ASSISTANT = 3"
| "screen_num WATCH_SCREEN_SETTINGS = 4"
| "screen_num WATCH_SCREEN_COUNT = 5"
| "screen_num (WATCH_SCREEN_BEYOND n) = 6 + n"

definition screen_of :: "nat \<Rightarrow> watch_screen" where
  "screen_of n =
     (if n = 0 then WATCH_SCREEN_HOME
      else if n = 1 then WATCH_SCREEN_NOTIFICATIONS
      else if n = 2 then WATCH_SCREEN_MUSIC
      else if n = 3 then WATCH_SCREEN_ASSISTANT
      else if n = 4 then WATCH_SCREEN_SETTINGS
      else if n = 5 then WATCH_SCREEN_COUNT
      else WATCH_SCREEN_BEYOND (n - 6))"

lemma screen_num_of [simp]: "screen_num (screen_of n) = n"
  by (simp add: screen_of_def)

lemma screen_of_num [simp]: "screen_of (screen_num s) = s"
  by (cases s) (simp_all add: screen_of_def)

lemma screen_num_inject [simp]: "screen_num s = screen_num t \<longleftrightarrow> s = t"
  by (metis screen_of_num)

text \<open>The comparisons the code makes on screens are those of the integers.\<close>

instantiation watch_screen :: linorder
begin

definition less_eq_watch_screen :: "watch_screen \<Rightarrow> watch_screen \<Rightarrow> bool" where
  "less_eq_watch_screen s t \<longleftrightarrow> screen_num s \<le> screen_num t"

definition less_watch_screen :: "watch_screen \<Rightarrow> watch_screen \<Rightarrow> bool" where
  "less_watch_screen s t \<longleftrightarrow> screen_num s < screen_num t"

instance
  by standard (auto simp: less_eq_watch_screen_def less_watch_screen_def)

end

definition valid_screen :: "watch_screen \<Rightarrow> bool" where
  "valid_screen s \<longleftrightarrow> s < WATCH_SCREEN_COUNT"

lemma valid_screen_num: "valid_screen s \<longleftrightarrow> screen_num s < 5"
  by (simp add: valid_screen_def less_watch_screen_def)

lemma valid_screen_cases:
  assumes "valid_screen s"
  obtains "s = WATCH_SCREEN_HOME" | "s = WATCH_SCREEN_NOTIFICATIONS" | "s = WATCH_SCREEN_MUSIC"
    | "s = WATCH_SCREEN_ASSISTANT" | "s = WATCH_SCREEN_SETTINGS"
  using assms by (cases s) (auto simp: valid_screen_num)

lemma valid_screens [simp, wf_intros]:
  "valid_screen WATCH_SCREEN_HOME" "valid_screen WATCH_SCREEN_NOTIFICATIONS"
  "valid_screen WATCH_SCREEN_MUSIC" "valid_screen WATCH_SCREEN_ASSISTANT"
  "valid_screen WATCH_SCREEN_SETTINGS"
  by (simp_all add: valid_screen_num)

definition watch_screen_name :: "watch_screen \<Rightarrow> string" where
  "watch_screen_name screen =
     (case screen of
        WATCH_SCREEN_HOME \<Rightarrow> ''home''
      | WATCH_SCREEN_NOTIFICATIONS \<Rightarrow> ''notifications''
      | WATCH_SCREEN_MUSIC \<Rightarrow> ''music''
      | WATCH_SCREEN_ASSISTANT \<Rightarrow> ''assistant''
      | WATCH_SCREEN_SETTINGS \<Rightarrow> ''settings''
      | _ \<Rightarrow> ''unknown'')"

section \<open>The state record\<close>

datatype watch_connection_state =
    WATCH_CONNECTION_OFFLINE
  | WATCH_CONNECTION_CONNECTING
  | WATCH_CONNECTION_ONLINE

definition WATCH_NOTIFICATION_CAPACITY :: nat where
  "WATCH_NOTIFICATION_CAPACITY = 4"

record watch_notification =
  title :: string
  body :: string

record watch_notification_list =
  total_count :: u16
  stored_count :: u8
  active_index :: u8
  entries :: "watch_notification list"

record watch_state =
  active_screen :: watch_screen
  connection :: watch_connection_state
  battery_percent :: u8
  steps :: u32
  temperature_c :: i16
  time_text :: string
  day_text :: string
  date_text :: string
  weather_condition :: string
  music_title :: string
  music_playing :: bool
  music_action_pending :: bool
  music_action_feedback :: string
  notifications :: watch_notification_list
  host_data_stale :: bool
  host_data_updated_at_ms :: u64

text \<open>The result of \<open>memset(..., 0, sizeof ...)\<close> on a notification and on the list.\<close>

definition zero_notification :: watch_notification where
  "zero_notification = \<lparr>title = zero_array 48, body = zero_array 96\<rparr>"

definition zero_notification_list :: watch_notification_list where
  "zero_notification_list =
     \<lparr>total_count = 0, stored_count = 0, active_index = 0,
      entries = replicate WATCH_NOTIFICATION_CAPACITY zero_notification\<rparr>"

section \<open>Operations\<close>

definition watch_state_reset_host_owned :: "watch_state \<Rightarrow> watch_state" where
  "watch_state_reset_host_owned state = state
     \<lparr>steps := 0,
      temperature_c := 0,
      weather_condition := strcpy (weather_condition state) ''Unavailable'',
      music_title := strcpy (music_title state) ''Nothing playing'',
      music_playing := False,
      music_action_pending := False,
      music_action_feedback := (music_action_feedback state)[0 := NUL],
      notifications := zero_notification_list,
      host_data_stale := False,
      host_data_updated_at_ms := 0\<rparr>"

definition watch_state_init :: "watch_state" where
  "watch_state_init =
     (let state =
        \<lparr>active_screen = WATCH_SCREEN_HOME,
         connection = WATCH_CONNECTION_OFFLINE,
         battery_percent = 72,
         steps = 7421,
         temperature_c = 28,
         time_text = ''21:45'',
         day_text = ''THU'',
         date_text = ''SEP 24'',
         weather_condition = zero_array 32,
         music_title = zero_array 64,
         music_playing = False,
         music_action_pending = False,
         music_action_feedback = zero_array 32,
         notifications = zero_notification_list,
         host_data_stale = False,
         host_data_updated_at_ms = 0\<rparr>;
          state = watch_state_reset_host_owned state
      in state\<lparr>steps := 7421, temperature_c := 28,
               weather_condition := strcpy (weather_condition state) ''Clear''\<rparr>)"

text \<open>
  The comparison of \<open>watch_state_notification_next\<close> is made in \<open>unsigned int\<close>, where
  \<open>active_index + 1U\<close> does not wrap; the increment is made in \<open>uint8_t\<close>.
\<close>

definition watch_state_notification_next :: "watch_state \<Rightarrow> bool \<times> watch_state" where
  "watch_state_notification_next state =
     (let list = notifications state in
      if unat (active_index list) + 1 \<ge> unat (stored_count list) then (False, state)
      else (True, state\<lparr>notifications := list\<lparr>active_index := active_index list + 1\<rparr>\<rparr>))"

definition watch_state_notification_previous :: "watch_state \<Rightarrow> bool \<times> watch_state" where
  "watch_state_notification_previous state =
     (let list = notifications state in
      if active_index list = 0 then (False, state)
      else (True, state\<lparr>notifications := list\<lparr>active_index := active_index list - 1\<rparr>\<rparr>))"

definition watch_state_set_screen :: "watch_state \<Rightarrow> watch_screen \<Rightarrow> watch_state" where
  "watch_state_set_screen state screen = state\<lparr>active_screen := screen\<rparr>"

section \<open>Well-formedness\<close>

definition wf_notification :: "watch_notification \<Rightarrow> bool" where
  "wf_notification n \<longleftrightarrow> cstring_array 48 (title n) \<and> cstring_array 96 (body n)"

text \<open>The cursor rule is the one \<open>watch_cache_valid\<close> checks.\<close>

definition cursor_ok :: "u8 \<Rightarrow> u8 \<Rightarrow> bool" where
  "cursor_ok stored active \<longleftrightarrow> (stored = 0 \<and> active = 0) \<or> active < stored"

definition wf_notification_list :: "watch_notification_list \<Rightarrow> bool" where
  "wf_notification_list l \<longleftrightarrow>
     length (entries l) = WATCH_NOTIFICATION_CAPACITY \<and>
     list_all wf_notification (entries l) \<and>
     unat (stored_count l) \<le> WATCH_NOTIFICATION_CAPACITY \<and>
     cursor_ok (stored_count l) (active_index l)"

definition wf_state :: "watch_state \<Rightarrow> bool" where
  "wf_state s \<longleftrightarrow>
     valid_screen (active_screen s) \<and>
     cstring_array 32 (weather_condition s) \<and>
     cstring_array 64 (music_title s) \<and>
     cstring_array 32 (music_action_feedback s) \<and>
     wf_notification_list (notifications s)"

lemma wf_zero_notification [simp, wf_intros]: "wf_notification zero_notification"
  by (simp add: wf_notification_def zero_notification_def)

lemma wf_zero_notification_list [simp, wf_intros]: "wf_notification_list zero_notification_list"
  by (simp add: wf_notification_list_def zero_notification_list_def cursor_ok_def
      WATCH_NOTIFICATION_CAPACITY_def list_all_iff)

lemma cstring_array_set_first [wf_intros]:
  "cstring_array n s \<Longrightarrow> cstring_array n (s[0 := NUL])"
  by (cases s) (auto simp: cstring_array_def)

lemma wf_state_reset [wf_intros]:
  assumes "wf_state s"
  shows "wf_state (watch_state_reset_host_owned s)"
  using assms
  by (auto simp: wf_state_def watch_state_reset_host_owned_def
      intro!: cstring_array_strcpy cstring_array_set_first dest: cstring_array_length)

lemma wf_state_init [simp, wf_intros]: "wf_state watch_state_init"
  unfolding watch_state_init_def wf_state_def
  by (auto simp: watch_state_reset_host_owned_def Let_def clib_simps
      intro!: cstring_array_strcpy cstring_array_set_first)

lemma wf_state_set_screen [wf_intros]:
  "wf_state s \<Longrightarrow> valid_screen x \<Longrightarrow> wf_state (watch_state_set_screen s x)"
  by (simp add: wf_state_def watch_state_set_screen_def)

subsection \<open>Browsing\<close>

lemma cursor_ok_unat:
  "cursor_ok stored active \<longleftrightarrow>
     (unat stored = 0 \<and> unat active = 0) \<or> unat active < unat stored"
  by (auto simp: cursor_ok_def word_less_nat_alt unat_eq_0)

lemma unat_u8_Suc:
  assumes "unat (i :: u8) + 1 < unat (n :: u8)"
  shows "unat (i + 1) = Suc (unat i)"
proof -
  have "Suc (unat i) < 256" using assms unat_u8_less [of n] by linarith
  then have "Suc (unat i) mod 256 = Suc (unat i)" by simp
  then show ?thesis by (simp add: unat_word_ariths)
qed

lemma unat_u8_Suc_not_le:
  "\<not> unat (n :: u8) \<le> Suc (unat (i :: u8)) \<Longrightarrow> unat (i + 1) = Suc (unat i)"
  by (rule unat_u8_Suc [of i n]) simp

lemma unat_u8_pred: "(i :: u8) \<noteq> 0 \<Longrightarrow> unat (i - 1) = unat i - 1"
  by (simp add: unat_minus_one)

lemma notification_next_cursor:
  "watch_state_notification_next s = (ok, s') \<Longrightarrow>
     ok = (unat (active_index (notifications s)) + 1 < unat (stored_count (notifications s))) \<and>
     unat (active_index (notifications s')) =
       unat (active_index (notifications s)) + (if ok then 1 else 0)"
  by (auto simp: watch_state_notification_next_def Let_def unat_u8_Suc_not_le split: if_splits)

lemma notification_previous_cursor:
  "watch_state_notification_previous s = (ok, s') \<Longrightarrow>
     ok = (0 < unat (active_index (notifications s))) \<and>
     unat (active_index (notifications s')) =
       unat (active_index (notifications s)) - (if ok then 1 else 0)"
  by (auto simp: watch_state_notification_previous_def Let_def unat_u8_pred unat_gt_0
      split: if_splits)

lemma wf_notification_next [wf_intros]:
  "wf_state s \<Longrightarrow> wf_state (snd (watch_state_notification_next s))"
  by (auto simp: wf_state_def wf_notification_list_def watch_state_notification_next_def Let_def
      cursor_ok_unat unat_u8_Suc_not_le)

lemma wf_notification_previous [wf_intros]:
  "wf_state s \<Longrightarrow> wf_state (snd (watch_state_notification_previous s))"
  by (auto simp: wf_state_def wf_notification_list_def watch_state_notification_previous_def Let_def
      cursor_ok_unat unat_u8_pred)

text \<open>
  C29. Browsing the notification list stays inside it and is reversible in both directions: when
  the list has an entry behind the cursor, \<open>watch_state_notification_next\<close> reports a change,
  moves the cursor by exactly one, and \<open>watch_state_notification_previous\<close> then gives back the
  very same state; at the last entry it reports no change and leaves the state as it is. In
  the same way \<open>watch_state_notification_previous\<close> moves back by exactly one unless the cursor is
  on the first entry, where it reports no change and leaves the state as it is, so the 8-bit
  index never wraps below zero; a following \<open>watch_state_notification_next\<close> undoes it whenever
  the cursor it started from was inside the list.
\<close>

theorem notification_browsing:
  "(case watch_state_notification_next s of (moved, s') \<Rightarrow>
      (if Suc (unat (active_index (notifications s))) < unat (stored_count (notifications s))
       then moved \<and>
            unat (active_index (notifications s')) = Suc (unat (active_index (notifications s))) \<and>
            watch_state_notification_previous s' = (True, s)
       else \<not> moved \<and> s' = s)) \<and>
   (case watch_state_notification_previous s of (moved, s') \<Rightarrow>
      (if 0 < unat (active_index (notifications s))
       then moved \<and>
            Suc (unat (active_index (notifications s'))) = unat (active_index (notifications s)) \<and>
            watch_state_notification_next s' =
              (if unat (active_index (notifications s)) < unat (stored_count (notifications s))
               then (True, s) else (False, s'))
       else \<not> moved \<and> s' = s))"
proof (rule conjI, goal_cases)
  case 1
  show ?case
    by (auto simp: watch_state_notification_next_def watch_state_notification_previous_def Let_def
        unat_u8_Suc_not_le simp flip: unat_eq_0)
next
  case 2
  show ?case
  proof (cases "active_index (notifications s) = 0")
    case True
    then show ?thesis by (simp add: watch_state_notification_previous_def Let_def)
  next
    case False
    then have "0 < unat (active_index (notifications s))" by (simp add: unat_gt_0)
    with False show ?thesis
      by (simp add: watch_state_notification_previous_def watch_state_notification_next_def Let_def
          unat_u8_pred Suc_le_eq not_less)
  qed
qed

end
