(* ===== verification/Navigation.thy ===== *)
theory Navigation
  imports Watch_State
begin

text \<open>
  The navigation component (\<open>watch/src/navigation\<close>): a bounded stack of screens, of which
  the runtime uses the carousel moves \<open>navigation_next\<close> and \<open>navigation_previous\<close> and
  \<open>navigation_replace\<close>. The array \<open>stack\<close> always has eight slots; the slots at and above
  \<open>depth\<close> keep what was last written there. The abstract view of the component is the list
  of the screens below \<open>depth\<close>; the locale \<open>bounded_stack\<close> states the stack interface over
  such a view, and the component is shown to implement it.
\<close>

section \<open>The component\<close>

definition WATCH_NAVIGATION_DEPTH :: nat where
  "WATCH_NAVIGATION_DEPTH = 8"

record watch_navigation =
  stack :: "watch_screen list"
  depth :: nat

text \<open>The static object before initialisation: all bytes zero.\<close>

definition zero_navigation :: watch_navigation where
  "zero_navigation =
     \<lparr>stack = replicate WATCH_NAVIGATION_DEPTH WATCH_SCREEN_HOME, depth = 0\<rparr>"

definition navigation_init :: "watch_navigation \<Rightarrow> watch_navigation" where
  "navigation_init navigation =
     navigation\<lparr>stack := (stack navigation)[0 := WATCH_SCREEN_HOME], depth := 1\<rparr>"

definition navigation_current :: "watch_navigation \<Rightarrow> watch_screen" where
  "navigation_current navigation = stack navigation ! (depth navigation - 1)"

definition navigation_push :: "watch_navigation \<Rightarrow> watch_screen \<Rightarrow> bool \<times> watch_navigation" where
  "navigation_push navigation screen =
     (if depth navigation \<ge> WATCH_NAVIGATION_DEPTH then (False, navigation)
      else (True, navigation\<lparr>stack := (stack navigation)[depth navigation := screen],
                             depth := depth navigation + 1\<rparr>))"

definition navigation_pop :: "watch_navigation \<Rightarrow> bool \<times> watch_navigation" where
  "navigation_pop navigation =
     (if depth navigation \<le> 1 then (False, navigation)
      else (True, navigation\<lparr>depth := depth navigation - 1\<rparr>))"

definition navigation_replace :: "watch_navigation \<Rightarrow> watch_screen \<Rightarrow> watch_navigation" where
  "navigation_replace navigation screen =
     navigation\<lparr>stack := (stack navigation)[depth navigation - 1 := screen]\<rparr>"

text \<open>The arithmetic on the enumeration is made in \<open>unsigned int\<close>.\<close>

definition navigation_next :: "watch_navigation \<Rightarrow> bool \<times> watch_navigation" where
  "navigation_next navigation =
     (let current = navigation_current navigation in
      (True, navigation
         \<lparr>depth := 1,
          stack := (stack navigation)
            [0 := screen_of ((screen_num current + 1) mod 2 ^ 32 mod screen_num WATCH_SCREEN_COUNT)]\<rparr>))"

definition navigation_previous :: "watch_navigation \<Rightarrow> bool \<times> watch_navigation" where
  "navigation_previous navigation =
     (let current = navigation_current navigation in
      (True, navigation
         \<lparr>depth := 1,
          stack := (stack navigation)
            [0 := (if current = WATCH_SCREEN_HOME then WATCH_SCREEN_SETTINGS
                   else screen_of (screen_num current - 1))]\<rparr>))"

section \<open>Invariant\<close>

definition wf_navigation :: "watch_navigation \<Rightarrow> bool" where
  "wf_navigation n \<longleftrightarrow>
     length (stack n) = WATCH_NAVIGATION_DEPTH \<and>
     list_all valid_screen (stack n) \<and>
     1 \<le> depth n \<and> depth n \<le> WATCH_NAVIGATION_DEPTH"

lemma navigation_depth_bounds:
  "wf_navigation n \<Longrightarrow> 0 < depth n \<and> depth n \<le> length (stack n)"
  by (auto simp: wf_navigation_def)

lemma valid_screen_current [wf_intros]:
  "wf_navigation n \<Longrightarrow> valid_screen (navigation_current n)"
  by (auto simp: wf_navigation_def navigation_current_def list_all_length)

lemma list_all_update [wf_intros]: "list_all P xs \<Longrightarrow> P x \<Longrightarrow> list_all P (xs[i := x])"
  by (auto simp: list_all_iff dest: set_update_subset_insert [THEN subsetD])

lemma wf_navigation_init [wf_intros]:
  "length (stack n) = WATCH_NAVIGATION_DEPTH \<Longrightarrow> list_all valid_screen (stack n) \<Longrightarrow>
   wf_navigation (navigation_init n)"
  by (simp add: wf_navigation_def navigation_init_def WATCH_NAVIGATION_DEPTH_def list_all_update)

lemma wf_navigation_zero_init [simp, wf_intros]: "wf_navigation (navigation_init zero_navigation)"
  by (rule wf_navigation_init) (simp_all add: zero_navigation_def list_all_iff)

lemma wf_navigation_push [wf_intros]:
  "wf_navigation n \<Longrightarrow> valid_screen x \<Longrightarrow> wf_navigation (snd (navigation_push n x))"
  by (simp add: wf_navigation_def navigation_push_def list_all_update)

lemma wf_navigation_pop [wf_intros]:
  "wf_navigation n \<Longrightarrow> wf_navigation (snd (navigation_pop n))"
  by (auto simp: wf_navigation_def navigation_pop_def)

lemma wf_navigation_replace [wf_intros]:
  "wf_navigation n \<Longrightarrow> valid_screen x \<Longrightarrow> wf_navigation (navigation_replace n x)"
  by (simp add: wf_navigation_def navigation_replace_def list_all_update)

lemma valid_screen_of_mod [simp, wf_intros]: "valid_screen (screen_of (k mod 5))"
  by (simp add: valid_screen_num)

lemma wf_navigation_next [wf_intros]:
  "wf_navigation n \<Longrightarrow> wf_navigation (snd (navigation_next n))"
  by (simp add: wf_navigation_def navigation_next_def Let_def WATCH_NAVIGATION_DEPTH_def list_all_update)

lemma wf_navigation_previous [wf_intros]:
  assumes "wf_navigation n"
  shows "wf_navigation (snd (navigation_previous n))"
proof -
  have "valid_screen (screen_of (screen_num (navigation_current n) - 1))"
    using valid_screen_current [OF assms] by (simp add: valid_screen_num)
  with assms show ?thesis
    by (simp add: wf_navigation_def navigation_previous_def Let_def WATCH_NAVIGATION_DEPTH_def
        list_all_update)
qed

section \<open>The stack interface\<close>

text \<open>
  A client of the stack issues a sequence of operations. On the abstract stack, a list from the bottom
  to the top, a push is refused at the bound, a pop of the last element is refused, and a
  replacement always succeeds.
\<close>

datatype 'a stack_op = Push_screen 'a | Pop_screen | Replace_screen 'a

fun stack_spec :: "nat \<Rightarrow> 'a stack_op \<Rightarrow> 'a list \<Rightarrow> bool \<times> 'a list" where
  "stack_spec bound (Push_screen x) xs = (if length xs < bound then (True, xs @ [x]) else (False, xs))"
| "stack_spec bound Pop_screen xs = (if 1 < length xs then (True, butlast xs) else (False, xs))"
| "stack_spec bound (Replace_screen x) xs = (True, butlast xs @ [x])"

text \<open>The answers of a sequence of operations, each with the top of the stack after it.\<close>

fun run_ops :: "('o \<Rightarrow> 's \<Rightarrow> bool \<times> 's) \<Rightarrow> ('s \<Rightarrow> 'a) \<Rightarrow> 'o list \<Rightarrow> 's \<Rightarrow> (bool \<times> 'a) list \<times> 's" where
  "run_ops step peek [] s = ([], s)"
| "run_ops step peek (op # ops) s =
     (case step op s of (ok, s) \<Rightarrow>
      case run_ops step peek ops s of (answers, s') \<Rightarrow> ((ok, peek s) # answers, s'))"

text \<open>An operation of a component that offers the three; a replacement returns nothing.\<close>

fun stack_step ::
    "('s \<Rightarrow> 'a \<Rightarrow> bool \<times> 's) \<Rightarrow> ('s \<Rightarrow> bool \<times> 's) \<Rightarrow> ('s \<Rightarrow> 'a \<Rightarrow> 's) \<Rightarrow> 'a stack_op \<Rightarrow> 's \<Rightarrow> bool \<times> 's"
where
  "stack_step push pop replace (Push_screen x) s = push s x"
| "stack_step push pop replace Pop_screen s = pop s"
| "stack_step push pop replace (Replace_screen x) s = (True, replace s x)"

text \<open>
  The contract of a bounded stack that never becomes empty, over an abstract view that lists
  its elements from the bottom to the top.
\<close>

locale bounded_stack =
  fixes view :: "'s \<Rightarrow> 'a list"
    and inv :: "'s \<Rightarrow> bool"
    and bound :: nat
    and top :: "'s \<Rightarrow> 'a"
    and push :: "'s \<Rightarrow> 'a \<Rightarrow> bool \<times> 's"
    and pop :: "'s \<Rightarrow> bool \<times> 's"
    and replace :: "'s \<Rightarrow> 'a \<Rightarrow> 's"
  assumes view_bounds: "inv s \<Longrightarrow> view s \<noteq> [] \<and> length (view s) \<le> bound"
    and top_view: "inv s \<Longrightarrow> top s = last (view s)"
    and push_ok: "inv s \<Longrightarrow> fst (push s x) \<longleftrightarrow> length (view s) < bound"
    and push_view: "inv s \<Longrightarrow> view (snd (push s x)) = (if fst (push s x) then view s @ [x] else view s)"
    and pop_ok: "inv s \<Longrightarrow> fst (pop s) \<longleftrightarrow> 1 < length (view s)"
    and pop_view: "inv s \<Longrightarrow> view (snd (pop s)) = (if fst (pop s) then butlast (view s) else view s)"
    and replace_view: "inv s \<Longrightarrow> view (replace s x) = butlast (view s) @ [x]"
begin

lemma step_view:
  assumes "inv s" and step: "stack_step push pop replace op s = (ok, s')"
  shows "stack_spec bound op (view s) = (ok, view s')"
proof (cases op)
  case (Push_screen x)
  with step push_ok [OF assms(1), of x] push_view [OF assms(1), of x] show ?thesis by simp
next
  case Pop_screen
  with step pop_ok [OF assms(1)] pop_view [OF assms(1)] show ?thesis by simp
next
  case (Replace_screen x)
  with step replace_view [OF assms(1), of x] show ?thesis by auto
qed

lemma run_ops_view:
  assumes inv_step: "\<And>op s. inv s \<Longrightarrow> ok op \<Longrightarrow> inv (snd (stack_step push pop replace op s))"
  shows "inv s \<Longrightarrow> list_all ok ops \<Longrightarrow> run_ops (stack_step push pop replace) top ops s = (answers, s') \<Longrightarrow>
    inv s' \<and> run_ops (stack_spec bound) last ops (view s) = (answers, view s')"
proof (induction ops arbitrary: s answers)
  case Nil
  then show ?case by simp
next
  case (Cons op ops)
  obtain b t where op: "stack_step push pop replace op s = (b, t)" by fastforce
  with Cons.prems inv_step [of s op] have t: "inv t" by simp
  obtain rest where rest: "run_ops (stack_step push pop replace) top ops t = (rest, s')" and answers: "answers = (b, top t) # rest"
    using Cons.prems(3) op by (auto split: prod.splits)
  from Cons.IH [OF t _ rest] Cons.prems(2)
  have "inv s'" "run_ops (stack_spec bound) last ops (view t) = (rest, view s')" by simp_all
  with step_view [OF Cons.prems(1) op] show ?case by (simp add: answers top_view [OF t])
qed

lemma top_after_push:
  assumes "inv s" and "inv (snd (push s x))" and "length (view s) < bound"
  shows "top (snd (push s x)) = x"
  using assms by (simp add: top_view push_view push_ok)

lemma pop_after_push:
  assumes "inv s" and "inv (snd (push s x))" and "length (view s) < bound"
  shows "fst (pop (snd (push s x)))" and "view (snd (pop (snd (push s x)))) = view s"
  using assms view_bounds [OF assms(1)] by (simp_all add: pop_ok pop_view push_view push_ok)

text \<open>Pushing a list of elements, and popping a number of times.\<close>

lemma fold_push_view:
  assumes inv_push: "\<And>s x. inv s \<Longrightarrow> ok x \<Longrightarrow> inv (snd (push s x))"
  shows "inv s \<Longrightarrow> list_all ok xs \<Longrightarrow>
    inv (fold (\<lambda>x s. snd (push s x)) xs s) \<and>
    view (fold (\<lambda>x s. snd (push s x)) xs s) = view s @ take (bound - length (view s)) xs"
proof (induction xs arbitrary: s)
  case Nil
  then show ?case by simp
next
  case (Cons x xs)
  let ?s' = "snd (push s x)"
  from Cons.prems have inv': "inv ?s'" by (simp add: inv_push)
  with Cons have IH: "inv (fold (\<lambda>x s. snd (push s x)) xs ?s') \<and>
      view (fold (\<lambda>x s. snd (push s x)) xs ?s')
        = view ?s' @ take (bound - length (view ?s')) xs"
    by simp
  show ?case
  proof (cases "length (view s) < bound")
    case True
    then have "bound - length (view s) = Suc (bound - Suc (length (view s)))" by simp
    with True IH Cons.prems(1) show ?thesis by (simp add: push_view push_ok)
  next
    case False
    with IH Cons.prems(1) show ?thesis by (simp add: push_view push_ok)
  qed
qed

lemma funpow_pop_view:
  assumes inv_pop: "\<And>s. inv s \<Longrightarrow> inv (snd (pop s))"
  shows "inv s \<Longrightarrow> inv (((\<lambda>s. snd (pop s)) ^^ k) s) \<and>
    view (((\<lambda>s. snd (pop s)) ^^ k) s) = take (max 1 (length (view s) - k)) (view s)"
proof (induction k)
  case 0
  then show ?case using view_bounds [OF 0] by (simp add: Suc_le_eq)
next
  case (Suc k)
  let ?t = "((\<lambda>s. snd (pop s)) ^^ k) s"
  from Suc have inv_t: "inv ?t"
    and view_t: "view ?t = take (max 1 (length (view s) - k)) (view s)" by auto
  have len: "0 < length (view s)" using view_bounds [OF Suc.prems] by simp
  have "view (snd (pop ?t)) = (if 1 < length (view ?t) then butlast (view ?t) else view ?t)"
    using inv_t by (simp add: pop_view pop_ok)
  also have "\<dots> = take (max 1 (length (view s) - Suc k)) (view s)"
    using len by (cases "length (view s) \<le> k") (auto simp: view_t butlast_take max_def)
  finally show ?case using inv_t by (simp add: inv_pop)
qed

end

definition navigation_view :: "watch_navigation \<Rightarrow> watch_screen list" where
  "navigation_view n = take (depth n) (stack n)"

interpretation nav_stack: bounded_stack navigation_view wf_navigation WATCH_NAVIGATION_DEPTH
    navigation_current navigation_push navigation_pop navigation_replace
proof (unfold_locales, goal_cases)
  case (1 s)
  then show ?case by (auto simp: wf_navigation_def navigation_view_def)
next
  case (2 s)
  then have "0 < depth s" and "depth s \<le> length (stack s)"
    using navigation_depth_bounds by auto
  then show ?case
    by (cases "depth s") (auto simp: navigation_view_def navigation_current_def take_Suc_conv_app_nth)
next
  case (3 s x)
  then show ?case by (auto simp: wf_navigation_def navigation_view_def navigation_push_def)
next
  case (4 s x)
  then show ?case
    by (auto simp: wf_navigation_def navigation_view_def navigation_push_def take_Suc_conv_app_nth)
next
  case (5 s)
  then show ?case by (auto simp: wf_navigation_def navigation_view_def navigation_pop_def)
next
  case (6 s)
  then show ?case
    by (auto simp: wf_navigation_def navigation_view_def navigation_pop_def butlast_take)
next
  case (7 s x)
  then obtain k where "depth s = Suc k" "k < length (stack s)"
    using navigation_depth_bounds [of s] by (cases "depth s") auto
  then show ?case
    by (simp add: navigation_view_def navigation_replace_def take_Suc_conv_app_nth butlast_append)
qed

section \<open>The carousel\<close>

text \<open>The screen the carousel shows after one move from a screen.\<close>

lemma navigation_current_reset [simp]:
  "wf_navigation n \<Longrightarrow>
   navigation_current (n\<lparr>depth := Suc 0, stack := (stack n)[0 := x]\<rparr>) = x"
  by (simp add: navigation_current_def wf_navigation_def WATCH_NAVIGATION_DEPTH_def)

lemma navigation_current_next:
  "wf_navigation n \<Longrightarrow>
   navigation_current (snd (navigation_next n)) =
     screen_of ((screen_num (navigation_current n) + 1) mod 5)"
  using valid_screen_current [of n]
  by (simp add: navigation_next_def Let_def valid_screen_num)

lemma navigation_current_previous:
  assumes "wf_navigation n"
  shows "navigation_current (snd (navigation_previous n)) =
     screen_of ((screen_num (navigation_current n) + 4) mod 5)"
  using valid_screen_current [OF assms]
  by (rule valid_screen_cases)
     (simp_all add: assms navigation_previous_def Let_def screen_of_def)

lemma wf_navigation_funpow_next [wf_intros]:
  "wf_navigation n \<Longrightarrow> wf_navigation (((\<lambda>n. snd (navigation_next n)) ^^ k) n)"
  by (induction k) (simp_all add: wf_navigation_next)

lemma navigation_current_funpow_next:
  "wf_navigation n \<Longrightarrow>
   navigation_current (((\<lambda>n. snd (navigation_next n)) ^^ k) n) =
     screen_of ((screen_num (navigation_current n) + k) mod 5)"
proof (induction k)
  case 0
  then show ?case
    using valid_screen_current [of n] by (simp add: valid_screen_num)
next
  case (Suc k)
  then show ?case
    by (simp add: navigation_current_next wf_navigation_funpow_next mod_simps)
qed

lemma navigation_depth_moves:
  "depth (snd (navigation_next n)) = 1" "depth (snd (navigation_previous n)) = 1"
  by (simp_all add: navigation_next_def navigation_previous_def Let_def)

text \<open>The operations of the component, on screens of the enumeration.\<close>

abbreviation navigation_op :: "watch_screen stack_op \<Rightarrow> watch_navigation \<Rightarrow> bool \<times> watch_navigation" where
  "navigation_op \<equiv> stack_step navigation_push navigation_pop navigation_replace"

fun op_valid :: "watch_screen stack_op \<Rightarrow> bool" where
  "op_valid (Push_screen x) = valid_screen x"
| "op_valid Pop_screen = True"
| "op_valid (Replace_screen x) = valid_screen x"

lemma wf_navigation_op: "wf_navigation n \<Longrightarrow> op_valid op \<Longrightarrow> wf_navigation (snd (navigation_op op n))"
  by (cases op) (simp_all add: wf_navigation_push wf_navigation_pop wf_navigation_replace)

text \<open>
  Pushing a list of screens appends, in order, as many as fit below the depth of eight and drops
  the rest; popping any number of times removes that many but never the bottom screen.
\<close>

lemma navigation_push_pop_many:
  assumes "wf_navigation n" and "list_all valid_screen xs"
  shows "navigation_view (fold (\<lambda>x n. snd (navigation_push n x)) xs n)
           = navigation_view n @ take (WATCH_NAVIGATION_DEPTH - depth n) xs"
    and "navigation_view (((\<lambda>n. snd (navigation_pop n)) ^^ k) n)
           = take (max 1 (depth n - k)) (navigation_view n)"
proof -
  have "length (navigation_view n) = depth n"
    using navigation_depth_bounds [OF assms(1)] by (simp add: navigation_view_def)
  then show "navigation_view (fold (\<lambda>x n. snd (navigation_push n x)) xs n)
           = navigation_view n @ take (WATCH_NAVIGATION_DEPTH - depth n) xs"
    and "navigation_view (((\<lambda>n. snd (navigation_pop n)) ^^ k) n)
           = take (max 1 (depth n - k)) (navigation_view n)"
    using nav_stack.fold_push_view [of valid_screen n xs, OF wf_navigation_push assms]
      nav_stack.funpow_pop_view [of n k, OF wf_navigation_pop assms(1)]
    by simp_all
qed

text \<open>
  C24. The stack operations of the navigation component implement a bounded stack of screens:
  for every sequence of pushes, pops and replacements, the flags the operations return, what
  \<open>navigation_current\<close> shows after each of them, and the screens left at the end are those of
  the abstract stack, a list on which a push beyond eight screens and a pop of the last screen
  are refused and a replacement exchanges the top; all along the component's invariant holds.
\<close>

theorem navigation_stack_refines:
  assumes "wf_navigation n" and "list_all op_valid ops"
    and "run_ops navigation_op navigation_current ops n = (answers, n')"
  shows "wf_navigation n' \<and>
    run_ops (stack_spec 8) last ops (navigation_view n) = (answers, navigation_view n')"
  using nav_stack.run_ops_view [of op_valid n ops answers n'] assms
  by (simp add: wf_navigation_op WATCH_NAVIGATION_DEPTH_def)

theorem navigation_stack_refines_witness:
  "\<exists>n'. run_ops navigation_op navigation_current
      [Push_screen WATCH_SCREEN_MUSIC, Replace_screen WATCH_SCREEN_SETTINGS, Pop_screen, Pop_screen]
      (navigation_init zero_navigation) =
    ([(True, WATCH_SCREEN_MUSIC), (True, WATCH_SCREEN_SETTINGS), (True, WATCH_SCREEN_HOME),
      (False, WATCH_SCREEN_HOME)], n') \<and> navigation_view n' = [WATCH_SCREEN_HOME]"
proof -
  let ?ops = "[Push_screen WATCH_SCREEN_MUSIC, Replace_screen WATCH_SCREEN_SETTINGS, Pop_screen, Pop_screen]"
  obtain answers n' where run: "run_ops navigation_op navigation_current ?ops
      (navigation_init zero_navigation) = (answers, n')" by fastforce
  have "navigation_view (navigation_init zero_navigation) = [WATCH_SCREEN_HOME]"
    by (simp add: navigation_view_def navigation_init_def zero_navigation_def
        WATCH_NAVIGATION_DEPTH_def eval_nat_numeral)
  then show ?thesis
    using navigation_stack_refines [OF wf_navigation_zero_init _ run] unfolding run
    by (auto simp: conj_commute)
qed

text \<open>
  C25. The page carousel is a cycle of the five screens: a backward move undoes a forward move
  and the other way round, \<open>k\<close> forward moves show the screen \<open>k\<close> places further modulo
  five, every screen is reached within four forward moves, and the fifth is the start again.
\<close>

theorem navigation_carousel:
  assumes "wf_navigation n"
  shows "navigation_current (snd (navigation_previous (snd (navigation_next n)))) = navigation_current n \<and>
         navigation_current (snd (navigation_next (snd (navigation_previous n)))) = navigation_current n \<and>
         navigation_current (((\<lambda>n. snd (navigation_next n)) ^^ 5) n) = navigation_current n \<and>
         (\<forall>k. navigation_current (((\<lambda>n. snd (navigation_next n)) ^^ k) n)
                = screen_of ((screen_num (navigation_current n) + k) mod 5)) \<and>
         (\<forall>s. valid_screen s \<longrightarrow>
                (\<exists>k\<le>4. navigation_current (((\<lambda>n. snd (navigation_next n)) ^^ k) n) = s))"
proof (intro conjI allI impI)
  note wf = assms wf_navigation_next [OF assms] wf_navigation_previous [OF assms]
  have small: "screen_num (navigation_current n) < 5"
    using valid_screen_current [OF assms] by (simp add: valid_screen_num)
  then have cycle: "(screen_num (navigation_current n) + 5) mod 5 = screen_num (navigation_current n)"
    by simp
  show "navigation_current (snd (navigation_previous (snd (navigation_next n)))) = navigation_current n"
    using wf small by (simp add: navigation_current_next navigation_current_previous mod_simps)
  show "navigation_current (snd (navigation_next (snd (navigation_previous n)))) = navigation_current n"
    using wf small by (simp add: navigation_current_next navigation_current_previous mod_simps)
  show "navigation_current (((\<lambda>n. snd (navigation_next n)) ^^ 5) n) = navigation_current n"
    using cycle by (simp only: navigation_current_funpow_next [OF assms] screen_of_num)
  show "navigation_current (((\<lambda>n. snd (navigation_next n)) ^^ k) n)
      = screen_of ((screen_num (navigation_current n) + k) mod 5)" for k
    by (rule navigation_current_funpow_next [OF assms])
  show "\<exists>k\<le>4. navigation_current (((\<lambda>n. snd (navigation_next n)) ^^ k) n) = s"
    if "valid_screen s" for s
  proof (intro exI conjI)
    let ?k = "(screen_num s + 5 - screen_num (navigation_current n)) mod 5"
    show "?k \<le> 4" by (simp add: Suc_leI less_Suc_eq_le [symmetric])
    have "(screen_num (navigation_current n) + ?k) mod 5 = screen_num s mod 5"
      using small by (simp add: mod_simps)
    then show "navigation_current (((\<lambda>n. snd (navigation_next n)) ^^ ?k) n) = s"
      using that by (simp add: navigation_current_funpow_next [OF assms] valid_screen_num)
  qed
qed

theorem navigation_carousel_witness:
  "navigation_current (((\<lambda>n. snd (navigation_next n)) ^^ 5) (navigation_init zero_navigation))
     = WATCH_SCREEN_HOME"
proof -
  have "navigation_current (navigation_init zero_navigation) = WATCH_SCREEN_HOME"
    by (simp add: navigation_current_def navigation_init_def zero_navigation_def
        WATCH_NAVIGATION_DEPTH_def)
  then show ?thesis
    using navigation_carousel [OF wf_navigation_zero_init] by (elim conjE) (rule trans)
qed

end
