(* ===== verification/Watch_Input.thy ===== *)
theory Watch_Input
  imports Watch_Prelude
begin

text \<open>
  Gestures and hardware buttons (\<open>watch/src/input\<close>). Gesture classification is a pure
  function on 32-bit displacements. The two hardware buttons set a flag each from their
  interrupt handlers, and the main loop polls and clears the flags with a compare-and-swap;
  the results of the GPIO driver calls are a parameter of \<open>watch_input_init\<close>.
\<close>

section \<open>Swipe classification\<close>

datatype watch_swipe =
    WATCH_SWIPE_NONE
  | WATCH_SWIPE_NEXT
  | WATCH_SWIPE_PREVIOUS
  | WATCH_SWIPE_NEXT_ITEM
  | WATCH_SWIPE_PREVIOUS_ITEM

definition WATCH_SWIPE_MIN_DISTANCE :: int where
  "WATCH_SWIPE_MIN_DISTANCE = 50"

definition magnitude :: "i32 \<Rightarrow> i32" where
  "magnitude value = (if sint value < 0 then - value else value)"

definition watch_swipe_classify :: "i32 \<Rightarrow> i32 \<Rightarrow> watch_swipe" where
  "watch_swipe_classify delta_x delta_y =
     (let horizontal = magnitude delta_x;
          vertical = magnitude delta_y
      in if sint horizontal \<ge> WATCH_SWIPE_MIN_DISTANCE \<and> sint horizontal > sint (vertical * 2)
         then (if sint delta_x < 0 then WATCH_SWIPE_NEXT else WATCH_SWIPE_PREVIOUS)
         else if sint vertical \<ge> WATCH_SWIPE_MIN_DISTANCE \<and> sint vertical > sint (horizontal * 2)
         then (if sint delta_y < 0 then WATCH_SWIPE_NEXT_ITEM else WATCH_SWIPE_PREVIOUS_ITEM)
         else WATCH_SWIPE_NONE)"

text \<open>
  Within \<open>2 ^ 30\<close> neither the negation nor the doubling overflows, so the words compute
  the absolute values and the doubled distances of the integers.
\<close>

lemma sint_in_range: "- (2 ^ 31) \<le> sint (w :: i32) \<and> sint w < 2 ^ 31"
  using sint_ge [of w] sint_lt [of w] by simp

lemma sint_small_i32:
  assumes "- (2 ^ 31) \<le> i" and "i < 2 ^ 31"
  shows "sint (word_of_int i :: i32) = i"
  using assms by (simp add: signed_of_int signed_take_bit_int_eq_self)

lemma sint_magnitude:
  assumes "\<bar>sint v\<bar> < 2 ^ 30"
  shows "sint (magnitude v) = \<bar>sint v\<bar>"
proof -
  have "- v = word_of_int (- sint v)" by simp
  moreover have "sint (word_of_int (- sint v) :: i32) = - sint v"
    using assms by (intro sint_small_i32) auto
  ultimately show ?thesis by (simp add: magnitude_def)
qed

lemma sint_doubled:
  assumes "\<bar>sint v\<bar> < 2 ^ 30"
  shows "sint (magnitude v * 2) = 2 * \<bar>sint v\<bar>"
  using assms
  by (simp add: sint_word_mult sint_magnitude signed_take_bit_int_eq_self)

text \<open>
  C27. A drag of less than \<open>2 ^ 30\<close> pixels in each axis (every drag on the 466 pixel
  display) is classified by its integer displacement: a page swipe when it is at least 50
  pixels long horizontally and more than twice as long as it is high, an item swipe for the
  same rule with the axes exchanged, and nothing otherwise; the sign chooses the direction.
\<close>

theorem swipe_classification:
  assumes "\<bar>sint dx\<bar> < 2 ^ 30" and "\<bar>sint dy\<bar> < 2 ^ 30"
  shows "watch_swipe_classify dx dy =
    (if 50 \<le> \<bar>sint dx\<bar> \<and> 2 * \<bar>sint dy\<bar> < \<bar>sint dx\<bar>
     then (if sint dx < 0 then WATCH_SWIPE_NEXT else WATCH_SWIPE_PREVIOUS)
     else if 50 \<le> \<bar>sint dy\<bar> \<and> 2 * \<bar>sint dx\<bar> < \<bar>sint dy\<bar>
     then (if sint dy < 0 then WATCH_SWIPE_NEXT_ITEM else WATCH_SWIPE_PREVIOUS_ITEM)
     else WATCH_SWIPE_NONE)"
  using assms
  by (simp add: watch_swipe_classify_def Let_def WATCH_SWIPE_MIN_DISTANCE_def
      sint_magnitude sint_doubled)

theorem swipe_classification_witness:
  "watch_swipe_classify (- 80) 4 = WATCH_SWIPE_NEXT \<and>
   watch_swipe_classify (- 80) 41 = WATCH_SWIPE_NONE"
  using swipe_classification [of "- 80" 4] swipe_classification [of "- 80" 41] by simp

section \<open>Hardware buttons\<close>

datatype watch_input_event =
    WATCH_INPUT_NONE
  | WATCH_INPUT_HARDWARE_BUTTON
  | WATCH_INPUT_ACTIVATE

text \<open>The two \<open>atomic_t\<close> flags.\<close>

record watch_input =
  pending_button :: int
  pending_activate :: int

definition zero_input :: watch_input where
  "zero_input = \<lparr>pending_button = 0, pending_activate = 0\<rparr>"

text \<open>\<open>atomic_cas\<close>: whether the old value was the expected one, and the value left behind.\<close>

definition atomic_cas :: "int \<Rightarrow> int \<Rightarrow> int \<Rightarrow> bool \<times> int" where
  "atomic_cas target old new = (if target = old then (True, new) else (False, target))"

definition button_isr :: "watch_input \<Rightarrow> watch_input" where
  "button_isr i = i\<lparr>pending_button := 1\<rparr>"

definition activate_isr :: "watch_input \<Rightarrow> watch_input" where
  "activate_isr i = i\<lparr>pending_activate := 1\<rparr>"

definition watch_input_poll :: "watch_input \<Rightarrow> watch_input_event \<times> watch_input" where
  "watch_input_poll i =
     (case atomic_cas (pending_activate i) 1 0 of
        (True, v) \<Rightarrow> (WATCH_INPUT_ACTIVATE, i\<lparr>pending_activate := v\<rparr>)
      | (False, _) \<Rightarrow>
          (case atomic_cas (pending_button i) 1 0 of
             (True, v) \<Rightarrow> (WATCH_INPUT_HARDWARE_BUTTON, i\<lparr>pending_button := v\<rparr>)
           | (False, _) \<Rightarrow> (WATCH_INPUT_NONE, i)))"

text \<open>
  What the GPIO driver answers for one button: whether its port is ready, and the result
  codes of configuring the pin, adding the callback and enabling the edge interrupt.
\<close>

record gpio_answers =
  gpio_is_ready :: bool
  gpio_pin_configure :: int
  gpio_add_callback :: int
  gpio_pin_interrupt_configure :: int

definition ENODEV_code :: int where
  "ENODEV_code = 19"

text \<open>
  \<open>watch_input_init\<close> answers 0 or the first error of the two buttons' set-up, the
  navigation button (alias \<open>sw0\<close>) first.
\<close>

definition watch_input_init :: "gpio_answers \<Rightarrow> gpio_answers \<Rightarrow> int" where
  "watch_input_init hardware_button activate_button =
     (if \<not> gpio_is_ready hardware_button then - ENODEV_code
      else if gpio_pin_configure hardware_button \<noteq> 0 then gpio_pin_configure hardware_button
      else if gpio_add_callback hardware_button \<noteq> 0 then gpio_add_callback hardware_button
      else if gpio_pin_interrupt_configure hardware_button \<noteq> 0
        then gpio_pin_interrupt_configure hardware_button
      else if \<not> gpio_is_ready activate_button then - ENODEV_code
      else if gpio_pin_configure activate_button \<noteq> 0 then gpio_pin_configure activate_button
      else if gpio_add_callback activate_button \<noteq> 0 then gpio_add_callback activate_button
      else gpio_pin_interrupt_configure activate_button)"

subsection \<open>Interleavings of presses and polls\<close>

datatype input_step = Press_Button | Press_Activate | Poll

fun input_run :: "watch_input \<Rightarrow> input_step list \<Rightarrow> watch_input_event list \<times> watch_input" where
  "input_run i [] = ([], i)"
| "input_run i (Press_Button # ops) = input_run (button_isr i) ops"
| "input_run i (Press_Activate # ops) = input_run (activate_isr i) ops"
| "input_run i (Poll # ops) =
     (case watch_input_poll i of (e, i') \<Rightarrow>
        (case input_run i' ops of (es, i'') \<Rightarrow> (e # es, i'')))"

definition flags_ok :: "watch_input \<Rightarrow> bool" where
  "flags_ok i \<longleftrightarrow> pending_button i \<in> {0, 1} \<and> pending_activate i \<in> {0, 1}"

lemma flags_ok_zero [simp, wf_intros]: "flags_ok zero_input"
  by (simp add: flags_ok_def zero_input_def)

lemma flags_ok_isr [simp, wf_intros]:
  "flags_ok i \<Longrightarrow> flags_ok (button_isr i)" "flags_ok i \<Longrightarrow> flags_ok (activate_isr i)"
  by (simp_all add: flags_ok_def button_isr_def activate_isr_def)

lemma watch_input_poll_cases:
  "flags_ok i \<Longrightarrow> watch_input_poll i =
     (if pending_activate i = 1 then (WATCH_INPUT_ACTIVATE, i\<lparr>pending_activate := 0\<rparr>)
      else if pending_button i = 1 then (WATCH_INPUT_HARDWARE_BUTTON, i\<lparr>pending_button := 0\<rparr>)
      else (WATCH_INPUT_NONE, i))"
  unfolding flags_ok_def watch_input_poll_def atomic_cas_def by force

lemma flags_ok_poll [simp, wf_intros]: "flags_ok i \<Longrightarrow> flags_ok (snd (watch_input_poll i))"
  by (auto simp: watch_input_poll_cases flags_ok_def)

text \<open>
  Along any run, from any flags: a report needs a press or a flag that was already set, and a
  press or a set flag leads to a report or leaves the flag set.
\<close>

lemma input_run_balance:
  "flags_ok i \<Longrightarrow> input_run i ops = (es, i') \<Longrightarrow>
     flags_ok i' \<and>
     int (count_list es WATCH_INPUT_HARDWARE_BUTTON) + pending_button i'
       \<le> int (count_list ops Press_Button) + pending_button i \<and>
     int (count_list es WATCH_INPUT_ACTIVATE) + pending_activate i'
       \<le> int (count_list ops Press_Activate) + pending_activate i \<and>
     (0 < int (count_list ops Press_Button) + pending_button i \<longrightarrow>
        0 < int (count_list es WATCH_INPUT_HARDWARE_BUTTON) + pending_button i') \<and>
     (0 < int (count_list ops Press_Activate) + pending_activate i \<longrightarrow>
        0 < int (count_list es WATCH_INPUT_ACTIVATE) + pending_activate i')"
proof (induction i ops arbitrary: es i' rule: input_run.induct)
  case (1 i)
  then show ?case by simp
next
  case (2 i ops)
  then have "flags_ok (button_isr i)" "input_run (button_isr i) ops = (es, i')" by simp_all
  from "2.IH" [OF this] "2.prems"(1) show ?case
    by (auto simp: button_isr_def flags_ok_def)
next
  case (3 i ops)
  then have "flags_ok (activate_isr i)" "input_run (activate_isr i) ops = (es, i')" by simp_all
  from "3.IH" [OF this] "3.prems"(1) show ?case
    by (auto simp: activate_isr_def flags_ok_def)
next
  case (4 i ops)
  obtain e j where poll: "watch_input_poll i = (e, j)" by fastforce
  with "4.prems"(1) have j: "flags_ok j" by (metis flags_ok_poll snd_conv)
  from poll "4.prems"(2) obtain es' where es: "es = e # es'" and run: "input_run j ops = (es', i')"
    by (auto split: prod.splits)
  note IH = "4.IH" [OF poll [symmetric] j run]
  with "4.prems"(1) poll show ?case
    by (auto simp: watch_input_poll_cases es flags_ok_def split: if_splits)
qed

text \<open>
  When a press is reported: a pending press of the activate button by the very next poll, a
  pending press of the navigation button as soon as there have been more polls than presses of the
  activate button, which every poll serves first.
\<close>

lemma input_run_activate:
  "flags_ok i \<Longrightarrow> pending_activate i = 1 \<Longrightarrow> Poll \<in> set ops \<Longrightarrow>
     \<exists>es. fst (input_run i ops) = WATCH_INPUT_ACTIVATE # es"
proof (induction i ops rule: input_run.induct)
  case (2 i ops)
  from "2.IH" "2.prems" show ?case by (simp add: button_isr_def flags_ok_def)
next
  case (3 i ops)
  from "3.IH" "3.prems" show ?case by (simp add: activate_isr_def flags_ok_def)
next
  case (4 i ops)
  then show ?case by (simp add: watch_input_poll_cases split: prod.split)
qed simp

lemma input_run_button:
  "flags_ok i \<Longrightarrow> pending_button i = 1 \<Longrightarrow>
     int (count_list ops Press_Activate) + pending_activate i < int (count_list ops Poll) \<Longrightarrow>
     WATCH_INPUT_HARDWARE_BUTTON \<in> set (fst (input_run i ops))"
proof (induction i ops rule: input_run.induct)
  case (1 i)
  then show ?case by (auto simp: flags_ok_def)
next
  case (2 i ops)
  from "2.IH" "2.prems" show ?case by (simp add: button_isr_def flags_ok_def)
next
  case (3 i ops)
  from "3.IH" "3.prems" show ?case by (auto simp: activate_isr_def flags_ok_def)
next
  case (4 i ops)
  show ?case
  proof (cases "pending_activate i = 1")
    case True
    let ?j = "i\<lparr>pending_activate := 0\<rparr>"
    from True "4.prems" have "watch_input_poll i = (WATCH_INPUT_ACTIVATE, ?j)"
      by (simp add: watch_input_poll_cases)
    moreover have "WATCH_INPUT_HARDWARE_BUTTON \<in> set (fst (input_run ?j ops))"
      by (rule "4.IH" [OF calculation [symmetric]])
         (use True "4.prems" in \<open>simp_all add: flags_ok_def\<close>)
    ultimately show ?thesis by (simp add: split_beta)
  next
    case False
    with "4.prems" show ?thesis by (simp add: watch_input_poll_cases split: prod.split)
  qed
qed

text \<open>The bound is sharp: one press of the activate button per poll starves the other button.\<close>

lemma button_starved:
  "flags_ok i \<Longrightarrow> pending_activate i = 0 \<Longrightarrow>
     fst (input_run i (concat (replicate n [Press_Activate, Poll]))) = replicate n WATCH_INPUT_ACTIVATE"
proof (induction n)
  case (Suc n)
  then obtain b where "i = \<lparr>pending_button = b, pending_activate = 0\<rparr>" by (cases i) simp
  with Suc show ?case
    by (simp add: activate_isr_def watch_input_poll_cases flags_ok_def split_beta)
qed simp

text \<open>
  C28. Presses are delivered and never invented, under every interleaving of interrupts and
  polls and from any flags. A press of the activate button is what the next poll reports; a press
  of the navigation button is reported once the polls behind it outnumber the presses of the
  activate button (one that was already pending included), because the activate button is
  served first. In any run each button is reported at most as often as it is pressed (plus one if
  it was pending at the start), since presses between two polls merge into one, and a press
  that is pending at the start or made during the run is reported in it or pending at its end.
\<close>

theorem input_presses_delivered:
  assumes "flags_ok i" and "input_run i ops = (es, i')"
  shows "(Poll \<in> set ops \<longrightarrow> hd (fst (input_run (activate_isr i) ops)) = WATCH_INPUT_ACTIVATE) \<and>
         (int (count_list ops Press_Activate) + pending_activate i < int (count_list ops Poll) \<longrightarrow>
            WATCH_INPUT_HARDWARE_BUTTON \<in> set (fst (input_run (button_isr i) ops))) \<and>
         int (count_list es WATCH_INPUT_HARDWARE_BUTTON)
           \<le> int (count_list ops Press_Button) + pending_button i \<and>
         int (count_list es WATCH_INPUT_ACTIVATE)
           \<le> int (count_list ops Press_Activate) + pending_activate i \<and>
         (pending_button i = 1 \<or> Press_Button \<in> set ops \<longrightarrow>
            WATCH_INPUT_HARDWARE_BUTTON \<in> set es \<or> pending_button i' = 1) \<and>
         (pending_activate i = 1 \<or> Press_Activate \<in> set ops \<longrightarrow>
            WATCH_INPUT_ACTIVATE \<in> set es \<or> pending_activate i' = 1)"
proof -
  note balance = input_run_balance [OF assms]
  have mem: "x \<in> set xs \<longleftrightarrow> 0 < int (count_list xs x)" for x :: 'b and xs
    by (metis count_list_0_iff of_nat_0_less_iff neq0_conv)
  have flags: "pending_button i \<in> {0, 1}" "pending_activate i \<in> {0, 1}"
    "pending_button i' \<in> {0, 1}" "pending_activate i' \<in> {0, 1}"
    using balance assms(1) by (simp_all add: flags_ok_def)
  have "Poll \<in> set ops \<longrightarrow> hd (fst (input_run (activate_isr i) ops)) = WATCH_INPUT_ACTIVATE"
    using input_run_activate [of "activate_isr i" ops] assms(1) by (auto simp: activate_isr_def flags_ok_def)
  moreover have "int (count_list ops Press_Activate) + pending_activate i < int (count_list ops Poll) \<longrightarrow>
      WATCH_INPUT_HARDWARE_BUTTON \<in> set (fst (input_run (button_isr i) ops))"
    using input_run_button [of "button_isr i" ops] assms(1) by (auto simp: button_isr_def flags_ok_def)
  ultimately show ?thesis
    using balance flags unfolding mem by (intro conjI impI) (simp_all, linarith+)
qed

theorem input_presses_delivered_witness:
  "WATCH_INPUT_HARDWARE_BUTTON \<in> set (fst (input_run (button_isr zero_input) [Press_Activate, Poll, Poll]))"
proof -
  obtain es i' where run: "input_run zero_input [Press_Activate, Poll, Poll] = (es, i')" by fastforce
  show ?thesis
    using input_presses_delivered [OF flags_ok_zero run] by (simp add: zero_input_def)
qed

end
