(* ===== verification/App_Registry.thy ===== *)
theory App_Registry
  imports Watch_State
begin

text \<open>
  The compiled application registry (\<open>watch/src/apps/app_registry.c\<close> with its generated
  table \<open>app_registry.generated.inc\<close>) and the platform capability contract
  (\<open>watch/src/platform\<close>). Both are constant tables with lookups.
\<close>

section \<open>Application registry\<close>

record watch_app_descriptor =
  app_id :: string
  app_name :: string
  app_version :: u16
  app_entry :: string
  app_screen :: watch_screen
  app_headline :: string
  app_offline_message :: string
  app_offline_available :: bool

definition apps :: "watch_app_descriptor list" where
  "apps =
     [\<lparr>app_id = ''home'', app_name = ''Home'', app_version = 1, app_entry = ''overview'',
       app_screen = WATCH_SCREEN_HOME, app_headline = ''Your day at a glance'',
       app_offline_message = ''Clock and cached cards remain local.'',
       app_offline_available = True\<rparr>,
      \<lparr>app_id = ''notifications'', app_name = ''Notifications'', app_version = 1,
       app_entry = ''inbox'', app_screen = WATCH_SCREEN_NOTIFICATIONS,
       app_headline = ''You'' @ [CHR 0x27] @ ''re all caught up'',
       app_offline_message = ''Cached notifications remain available.'',
       app_offline_available = True\<rparr>,
      \<lparr>app_id = ''music'', app_name = ''Music'', app_version = 1, app_entry = ''now_playing'',
       app_screen = WATCH_SCREEN_MUSIC, app_headline = ''Nothing playing'',
       app_offline_message = ''Cached metadata remains available offline.'',
       app_offline_available = True\<rparr>,
      \<lparr>app_id = ''assistant'', app_name = ''Assistant'', app_version = 1, app_entry = ''prompt'',
       app_screen = WATCH_SCREEN_ASSISTANT, app_headline = ''Assistant ready'',
       app_offline_message = ''Connect the host for AI requests.'',
       app_offline_available = True\<rparr>,
      \<lparr>app_id = ''settings'', app_name = ''Settings'', app_version = 1, app_entry = ''device'',
       app_screen = WATCH_SCREEN_SETTINGS, app_headline = ''Local settings'',
       app_offline_message = ''Display and device controls stay local.'',
       app_offline_available = True\<rparr>]"

definition app_registry_count :: nat where
  "app_registry_count = length apps"

definition app_registry_at :: "nat \<Rightarrow> watch_app_descriptor option" where
  "app_registry_at index = (if index < app_registry_count then Some (apps ! index) else None)"

text \<open>The search loop, from index 0 up to the count.\<close>

fun app_search :: "watch_app_descriptor list \<Rightarrow> watch_screen \<Rightarrow> watch_app_descriptor option" where
  "app_search [] screen = None"
| "app_search (a # as) screen = (if app_screen a = screen then Some a else app_search as screen)"

definition app_registry_find :: "watch_screen \<Rightarrow> watch_app_descriptor option" where
  "app_registry_find screen = app_search apps screen"

text \<open>
  Every screen the carousel can show has exactly one registered application, at the index
  of the screen's number, it has a non-empty entry and is available offline, and its name
  table agrees with the registry's identifiers; no other value of the enumeration has one.
\<close>

theorem app_registry_complete:
  "app_registry_find s =
     (if valid_screen s then app_registry_at (screen_num s) else None) \<and>
   (valid_screen s \<longrightarrow>
      (\<exists>a. app_registry_find s = Some a \<and> app_screen a = s \<and> app_id a = watch_screen_name s \<and>
           app_offline_available a \<and> app_entry a \<noteq> [] \<and> app_version a \<ge> 1))"
  by (cases s)
     (simp_all add: app_registry_find_def app_registry_at_def app_registry_count_def apps_def
      valid_screen_num watch_screen_name_def)

theorem app_registry_complete_witness:
  "app_registry_find WATCH_SCREEN_MUSIC = app_registry_at 2"
  using app_registry_complete [of WATCH_SCREEN_MUSIC] by simp

section \<open>Platform contract\<close>

datatype watch_platform_capability =
    WATCH_PLATFORM_DISPLAY
  | WATCH_PLATFORM_TOUCH
  | WATCH_PLATFORM_BUTTON
  | WATCH_PLATFORM_CROWN
  | WATCH_PLATFORM_BATTERY
  | WATCH_PLATFORM_RTC
  | WATCH_PLATFORM_STORAGE
  | WATCH_PLATFORM_BLE
  | WATCH_PLATFORM_SENSORS
  | WATCH_PLATFORM_POWER

text \<open>The enumerator's value, \<open>1U << n\<close>.\<close>

fun capability_bit :: "watch_platform_capability \<Rightarrow> u32" where
  "capability_bit WATCH_PLATFORM_DISPLAY = push_bit 0 1"
| "capability_bit WATCH_PLATFORM_TOUCH = push_bit 1 1"
| "capability_bit WATCH_PLATFORM_BUTTON = push_bit 2 1"
| "capability_bit WATCH_PLATFORM_CROWN = push_bit 3 1"
| "capability_bit WATCH_PLATFORM_BATTERY = push_bit 4 1"
| "capability_bit WATCH_PLATFORM_RTC = push_bit 5 1"
| "capability_bit WATCH_PLATFORM_STORAGE = push_bit 6 1"
| "capability_bit WATCH_PLATFORM_BLE = push_bit 7 1"
| "capability_bit WATCH_PLATFORM_SENSORS = push_bit 8 1"
| "capability_bit WATCH_PLATFORM_POWER = push_bit 9 1"

record watch_platform_info =
  platform_name :: string
  display_width :: u16
  display_height :: u16
  capabilities :: u32
  round_display :: bool

definition native_info :: watch_platform_info where
  "native_info =
     \<lparr>platform_name = ''native_sim'',
      display_width = 466,
      display_height = 466,
      capabilities =
        capability_bit WATCH_PLATFORM_DISPLAY OR capability_bit WATCH_PLATFORM_TOUCH OR
        capability_bit WATCH_PLATFORM_BUTTON OR capability_bit WATCH_PLATFORM_RTC OR
        capability_bit WATCH_PLATFORM_STORAGE OR capability_bit WATCH_PLATFORM_POWER,
      round_display = True\<rparr>"

definition watch_platform_init :: int where
  "watch_platform_init = 0"

definition watch_platform_get_info :: watch_platform_info where
  "watch_platform_get_info = native_info"

definition watch_platform_has :: "watch_platform_capability \<Rightarrow> bool" where
  "watch_platform_has capability = (capabilities native_info AND capability_bit capability \<noteq> 0)"

text \<open>
  The simulator advertises exactly display, touch, button, clock, storage and power, and
  none of crown, battery, BLE and sensors, which no target has been verified to have.
\<close>

theorem platform_capabilities:
  "watch_platform_has c \<longleftrightarrow>
     c \<in> {WATCH_PLATFORM_DISPLAY, WATCH_PLATFORM_TOUCH, WATCH_PLATFORM_BUTTON, WATCH_PLATFORM_RTC,
          WATCH_PLATFORM_STORAGE, WATCH_PLATFORM_POWER}"
  by (cases c) (simp_all add: watch_platform_has_def native_info_def)

end
