(* ===== verification/Json_Api.thy ===== *)
theory Json_Api
  imports Watch_Prelude
begin

text \<open>
  The interface of Zephyr's JSON library (\<open><zephyr/data/json.h>\<close>), which is not part of this
  repository and is a parameter of everything that parses. The code drives it as an iterator:
  \<open>json_obj_separate_parse_init\<close> opens an object text, and each
  \<open>json_obj_next_key_value\<close> fails, says the object has ended (a NULL key), or hands out the
  next key with the token of its value; \<open>json_arr_separate_object_parse_init\<close> and
  \<open>json_arr_separate_parse_object\<close> do the same for an array of objects with string members.
  The state of an iterator is represented by what it will answer, as a finite datatype, since
  every call consumes input of a finite text. A token is its type and the characters it spans.
  The library's in-place changes to the text are not visible to the code, which reads each
  text before it hands it to a call that writes into it.
\<close>

datatype json_token_type =
    JSON_TOK_OBJECT_START
  | JSON_TOK_ARRAY_START
  | JSON_TOK_STRING
  | JSON_TOK_NUMBER
  | JSON_TOK_TRUE
  | JSON_TOK_FALSE
  | JSON_TOK_OTHER

record json_token =
  tok_type :: json_token_type
  tok_text :: string

text \<open>
  An object iterator: the next call returns a negative result, reports the end of the object,
  or yields a key and a value token.
\<close>

datatype json_obj =
    Obj_Error
  | Obj_End
  | Obj_Pair (pair_key: string) (pair_value: json_token) (obj_rest: json_obj)

text \<open>
  An array iterator over objects of type \<open>'a\<close>: the next call returns a negative result,
  zero, or a positive result with the decoded members.
\<close>

datatype 'a json_arr =
    Arr_Error
  | Arr_End
  | Arr_Object (arr_item: 'a) (arr_rest: "'a json_arr")

text \<open>
  The object \<open>parse_notifications\<close> describes to the library: a member that is absent from
  the text stays NULL.
\<close>

record notification_json =
  json_id :: "string option"
  json_title :: "string option"
  json_body :: "string option"

record json_lib =
  json_obj_separate_parse_init :: "string \<Rightarrow> json_obj option"
  json_arr_separate_object_parse_init :: "string \<Rightarrow> notification_json json_arr option"

text \<open>The pairs an object iterator yields, and whether it ends without an error.\<close>

fun obj_pairs :: "json_obj \<Rightarrow> (string \<times> json_token) list" where
  "obj_pairs Obj_Error = []"
| "obj_pairs Obj_End = []"
| "obj_pairs (Obj_Pair k v rest) = (k, v) # obj_pairs rest"

fun obj_complete :: "json_obj \<Rightarrow> bool" where
  "obj_complete Obj_Error = False"
| "obj_complete Obj_End = True"
| "obj_complete (Obj_Pair k v rest) = obj_complete rest"

fun arr_items :: "'a json_arr \<Rightarrow> 'a list" where
  "arr_items Arr_Error = []"
| "arr_items Arr_End = []"
| "arr_items (Arr_Object x rest) = x # arr_items rest"

fun arr_complete :: "'a json_arr \<Rightarrow> bool" where
  "arr_complete Arr_Error = False"
| "arr_complete Arr_End = True"
| "arr_complete (Arr_Object x rest) = arr_complete rest"

section \<open>Comparing spans\<close>

definition span_equal :: "string \<Rightarrow> string \<Rightarrow> bool" where
  "span_equal span expected \<longleftrightarrow> length expected = length span \<and> span = expected"

lemma span_equal_iff [simp]: "span_equal span expected \<longleftrightarrow> span = expected"
  by (auto simp: span_equal_def)

section \<open>Decimal numbers\<close>

text \<open>
  The three number parsers of the firmware share the digit test and the digit's value. The
  value a string of digits denotes is \<open>decimal\<close>.
\<close>

definition not_digit :: "char \<Rightarrow> bool" where
  "not_digit c \<longleftrightarrow> schar c < 48 \<or> 57 < schar c"

definition digit_value :: "char \<Rightarrow> nat" where
  "digit_value c = nat (schar c - 48)"

fun decimal_from :: "nat \<Rightarrow> string \<Rightarrow> nat" where
  "decimal_from acc [] = acc"
| "decimal_from acc (c # cs) = decimal_from (acc * 10 + digit_value c) cs"

definition decimal :: "string \<Rightarrow> nat" where
  "decimal s = decimal_from 0 s"

definition all_digits :: "string \<Rightarrow> bool" where
  "all_digits s \<longleftrightarrow> s \<noteq> [] \<and> list_all (\<lambda>c. \<not> not_digit c) s"

lemma digit_value_less: "\<not> not_digit c \<Longrightarrow> digit_value c < 10"
  by (auto simp: not_digit_def digit_value_def)

lemma digit_value_number:
  "n < 10 \<Longrightarrow> digit_value (char_of (n + 48)) = n" "n < 10 \<Longrightarrow> \<not> not_digit (char_of (n + 48))"
proof -
  have "\<forall>m \<in> set [0..<10::nat]. digit_value (char_of (m + 48)) = m \<and> \<not> not_digit (char_of (m + 48))"
    by code_simp
  then show "n < 10 \<Longrightarrow> digit_value (char_of (n + 48)) = n" "n < 10 \<Longrightarrow> \<not> not_digit (char_of (n + 48))"
    by simp_all
qed

text \<open>The digit characters, for evaluating the parsers on concrete texts.\<close>

lemma digit_computes:
  "digit_value (CHR ''0'') = 0" "digit_value (CHR ''1'') = 1" "digit_value (CHR ''2'') = 2"
  "digit_value (CHR ''3'') = 3" "digit_value (CHR ''4'') = 4" "digit_value (CHR ''5'') = 5"
  "digit_value (CHR ''6'') = 6" "digit_value (CHR ''7'') = 7" "digit_value (CHR ''8'') = 8"
  "digit_value (CHR ''9'') = 9" "\<not> not_digit (CHR ''0'')" "\<not> not_digit (CHR ''1'')"
  "\<not> not_digit (CHR ''2'')" "\<not> not_digit (CHR ''3'')" "\<not> not_digit (CHR ''4'')"
  "\<not> not_digit (CHR ''5'')" "\<not> not_digit (CHR ''6'')" "\<not> not_digit (CHR ''7'')"
  "\<not> not_digit (CHR ''8'')" "\<not> not_digit (CHR ''9'')"
  by code_simp+

lemma decimal_from_mono: "acc \<le> decimal_from acc s"
proof (induction s arbitrary: acc)
  case Nil
  then show ?case by simp
next
  case (Cons c s)
  have "acc \<le> acc * 10 + digit_value c" by simp
  also have "\<dots> \<le> decimal_from (acc * 10 + digit_value c) s" by (rule Cons.IH)
  finally show ?case by simp
qed

end
