(* ===== verification/Utf8.thy ===== *)
theory Utf8
  imports Watch_Prelude
begin

text \<open>
  UTF-8 validation of incoming frames (\<open>valid_utf8\<close> in
  \<open>watch/src/protocol/watch_protocol.c\<close>), translated with its bit operations on bytes and
  its 32-bit code point, and proved equivalent to the definition of well-formed UTF-8: the
  concatenation of the encodings of Unicode scalar values.
\<close>

section \<open>The validator\<close>

text \<open>
  The lead byte gives the first bits of the code point and the number of continuation bytes;
  \<open>None\<close> is the branch that rejects it.
\<close>

definition utf8_lead :: "u8 \<Rightarrow> (u32 \<times> nat) option" where
  "utf8_lead first =
     (if first AND 0xe0 = 0xc0 then Some (ucast (first AND 0x1f), 1)
      else if first AND 0xf0 = 0xe0 then Some (ucast (first AND 0x0f), 2)
      else if first AND 0xf8 = 0xf0 then Some (ucast (first AND 0x07), 3)
      else None)"

text \<open>One step of the inner loop appends six bits to the code point.\<close>

definition shift_in :: "u32 \<Rightarrow> u8 \<Rightarrow> u32" where
  "shift_in codepoint next = push_bit 6 codepoint OR ucast (next AND 0x3f)"

text \<open>The inner loop over the continuation bytes.\<close>

fun read_continuation :: "u8 list \<Rightarrow> nat \<Rightarrow> u32 \<Rightarrow> (u32 \<times> u8 list) option" where
  "read_continuation bytes 0 codepoint = Some (codepoint, bytes)"
| "read_continuation [] (Suc j) codepoint = None"
| "read_continuation (next # bytes) (Suc j) codepoint =
     (if next AND 0xc0 \<noteq> 0x80 then None
      else read_continuation bytes j (shift_in codepoint next))"

lemma read_continuation_shorter:
  "read_continuation bytes n cp = Some (cp', rest) \<Longrightarrow> length rest + n = length bytes"
  by (induction bytes n cp rule: read_continuation.induct) (auto split: if_splits)

text \<open>The checks after the inner loop: overlong forms, the range and the surrogates.\<close>

definition bad_codepoint :: "nat \<Rightarrow> u32 \<Rightarrow> bool" where
  "bad_codepoint continuation codepoint \<longleftrightarrow>
     (continuation = 1 \<and> codepoint < 0x80) \<or>
     (continuation = 2 \<and> codepoint < 0x800) \<or>
     (continuation = 3 \<and> codepoint < 0x10000) \<or>
     0x10ffff < codepoint \<or>
     (0xd800 \<le> codepoint \<and> codepoint \<le> 0xdfff)"

function valid_utf8 :: "u8 list \<Rightarrow> bool" where
  "valid_utf8 [] = True"
| "valid_utf8 (first # bytes) =
     (if first < 0x80 then valid_utf8 bytes
      else case utf8_lead first of
        None \<Rightarrow> False
      | Some (codepoint, continuation) \<Rightarrow>
          if continuation > length bytes then False
          else case read_continuation bytes continuation codepoint of
            None \<Rightarrow> False
          | Some (codepoint', rest) \<Rightarrow>
              if bad_codepoint continuation codepoint' then False else valid_utf8 rest)"
  by pat_completeness auto
termination
  by (relation "measure length") (auto dest: read_continuation_shorter)

section \<open>Reference: well-formed UTF-8\<close>

definition scalar_value :: "nat \<Rightarrow> bool" where
  "scalar_value cp \<longleftrightarrow> cp \<le> 0x10ffff \<and> \<not> (0xd800 \<le> cp \<and> cp \<le> 0xdfff)"

definition utf8_encode :: "nat \<Rightarrow> nat list" where
  "utf8_encode cp =
     (if cp < 0x80 then [cp]
      else if cp < 0x800 then [0xc0 + cp div 64, 0x80 + cp mod 64]
      else if cp < 0x10000 then [0xe0 + cp div 4096, 0x80 + cp div 64 mod 64, 0x80 + cp mod 64]
      else [0xf0 + cp div 262144, 0x80 + cp div 4096 mod 64, 0x80 + cp div 64 mod 64,
            0x80 + cp mod 64])"

section \<open>Bytes as numbers\<close>

text \<open>A property of bytes is decided by evaluating it on all 256 of them.\<close>

lemma all_u8:
  assumes "\<forall>n \<in> set [0..<256]. P (word_of_nat n :: u8) n"
  shows "P b (unat b)"
proof -
  have "unat b \<in> set [0..<256]" by simp
  with assms have "P (word_of_nat (unat b)) (unat b)" by blast
  then show ?thesis by simp
qed

lemma mask_e0 [width_simps]: "b AND 0xe0 = (0xc0 :: u8) \<longleftrightarrow> 192 \<le> unat b \<and> unat b < 224"
  by (rule all_u8 [where P = "\<lambda>b n. b AND 0xe0 = 0xc0 \<longleftrightarrow> 192 \<le> n \<and> n < 224"]) code_simp

lemma mask_f0 [width_simps]: "b AND 0xf0 = (0xe0 :: u8) \<longleftrightarrow> 224 \<le> unat b \<and> unat b < 240"
  by (rule all_u8 [where P = "\<lambda>b n. b AND 0xf0 = 0xe0 \<longleftrightarrow> 224 \<le> n \<and> n < 240"]) code_simp

lemma mask_f8 [width_simps]: "b AND 0xf8 = (0xf0 :: u8) \<longleftrightarrow> 240 \<le> unat b \<and> unat b < 248"
  by (rule all_u8 [where P = "\<lambda>b n. b AND 0xf8 = 0xf0 \<longleftrightarrow> 240 \<le> n \<and> n < 248"]) code_simp

lemma mask_c0 [width_simps]: "b AND 0xc0 = (0x80 :: u8) \<longleftrightarrow> 128 \<le> unat b \<and> unat b < 192"
  by (rule all_u8 [where P = "\<lambda>b n. b AND 0xc0 = 0x80 \<longleftrightarrow> 128 \<le> n \<and> n < 192"]) code_simp

lemma unat_and_1f [width_simps]: "unat (b AND 0x1f :: u8) = unat b mod 32"
  by (rule all_u8 [where P = "\<lambda>b n. unat (b AND 0x1f) = n mod 32"]) code_simp

lemma unat_and_0f [width_simps]: "unat (b AND 0x0f :: u8) = unat b mod 16"
  by (rule all_u8 [where P = "\<lambda>b n. unat (b AND 0x0f) = n mod 16"]) code_simp

lemma unat_and_07 [width_simps]: "unat (b AND 0x07 :: u8) = unat b mod 8"
  by (rule all_u8 [where P = "\<lambda>b n. unat (b AND 0x07) = n mod 8"]) code_simp

lemma unat_and_3f [width_simps]: "unat (b AND 0x3f :: u8) = unat b mod 64"
  by (rule all_u8 [where P = "\<lambda>b n. unat (b AND 0x3f) = n mod 64"]) code_simp

lemma unat_ucast_u8_u32 [width_simps]: "unat (ucast (b :: u8) :: u32) = unat b"
  by (simp add: unsigned_ucast_eq take_bit_nat_eq_self less_trans [OF unat_u8_less])

lemma unat_shift_in:
  fixes codepoint :: u32 and next_byte :: u8
  assumes "unat codepoint < 2 ^ 26"
  shows "unat (shift_in codepoint next_byte) = unat codepoint * 64 + unat next_byte mod 64"
proof -
  let ?x = "ucast (next_byte AND 0x3f) :: u32"
  have x: "unat ?x = unat next_byte mod 64"
    by (simp add: width_simps)
  then have "take_bit 6 ?x = ?x"
    by (simp add: word_unat_eq_iff unat_mod take_bit_eq_mod)
  then have low: "n < 6" if "bit ?x n" for n
    using that by (metis bit_take_bit_iff)
  have "push_bit 6 codepoint AND ?x = 0"
    by (rule bit_word_eqI) (auto simp: bit_and_iff bit_push_bit_iff dest: low)
  then have "push_bit 6 codepoint OR ?x = push_bit 6 codepoint + ?x"
    by (rule disjunctive_add_eq_or [symmetric])
  moreover have "push_bit 6 codepoint = codepoint * 64"
    by (simp add: push_bit_eq_mult)
  ultimately have "push_bit 6 codepoint OR ?x = codepoint * 64 + ?x"
    by (simp only:)
  then show ?thesis
    using assms x by (simp only: shift_in_def) (simp add: unat_word_ariths)
qed

section \<open>The validator over numbers\<close>

definition continuation_byte :: "u8 \<Rightarrow> bool" where
  "continuation_byte b \<longleftrightarrow> 128 \<le> unat b \<and> unat b < 192"

lemma read_continuation_Cons:
  "read_continuation (b # bytes) (Suc j) cp =
     (if continuation_byte b then read_continuation bytes j (shift_in cp b) else None)"
  by (simp add: continuation_byte_def mask_c0)

lemma read_continuation_Nil: "0 < n \<Longrightarrow> read_continuation [] n cp = None"
  by (cases n) simp_all

lemma read_continuation_1:
  "read_continuation (c1 # rest) (Suc 0) cp =
     (if continuation_byte c1 then Some (shift_in cp c1, rest) else None)"
  by (simp only: read_continuation_Cons read_continuation.simps)

lemma read_continuation_2:
  "read_continuation (c1 # c2 # rest) 2 cp =
     (if continuation_byte c1 \<and> continuation_byte c2
      then Some (shift_in (shift_in cp c1) c2, rest) else None)"
  by (simp only: numeral_2_eq_2 read_continuation_Cons read_continuation.simps split: if_split) simp

lemma read_continuation_3:
  "read_continuation (c1 # c2 # c3 # rest) 3 cp =
     (if continuation_byte c1 \<and> continuation_byte c2 \<and> continuation_byte c3
      then Some (shift_in (shift_in (shift_in cp c1) c2) c3, rest) else None)"
  by (simp only: numeral_3_eq_3 read_continuation_Cons read_continuation.simps split: if_split) simp

definition bad_number :: "nat \<Rightarrow> nat \<Rightarrow> bool" where
  "bad_number continuation cp \<longleftrightarrow>
     (continuation = 1 \<and> cp < 0x80) \<or> (continuation = 2 \<and> cp < 0x800) \<or>
     (continuation = 3 \<and> cp < 0x10000) \<or> \<not> scalar_value cp"

lemma bad_codepoint_number: "bad_codepoint n cp \<longleftrightarrow> bad_number n (unat cp)"
  by (auto simp: bad_codepoint_def bad_number_def scalar_value_def word_less_nat_alt word_le_nat_alt)

lemma unat_lead_bits [width_simps]:
  "unat (ucast (b AND 0x1f :: u8) :: u32) = unat b mod 32"
  "unat (ucast (b AND 0x0f :: u8) :: u32) = unat b mod 16"
  "unat (ucast (b AND 0x07 :: u8) :: u32) = unat b mod 8"
  by (simp_all add: width_simps)

text \<open>The validator on each kind of lead byte, in numbers only.\<close>

lemma valid_utf8_1:
  "unat b < 128 \<Longrightarrow> valid_utf8 (b # bytes) = valid_utf8 bytes"
  by (simp add: word_less_nat_alt)

lemma valid_utf8_2:
  assumes "192 \<le> unat b" and "unat b < 224"
  shows "valid_utf8 (b # bytes) \<longleftrightarrow>
     (\<exists>c1 rest. bytes = c1 # rest \<and> continuation_byte c1 \<and>
        \<not> bad_number 1 (unat b mod 32 * 64 + unat c1 mod 64) \<and> valid_utf8 rest)"
proof (cases bytes)
  case Nil
  with assms show ?thesis by (simp add: word_less_nat_alt utf8_lead_def mask_e0)
next
  case (Cons c1 rest)
  have "unat (shift_in (ucast (b AND 0x1f)) c1) = unat b mod 32 * 64 + unat c1 mod 64"
    by (simp add: unat_shift_in unat_lead_bits)
  with assms Cons show ?thesis
    by (subst valid_utf8.simps)
       (auto simp: word_less_nat_alt utf8_lead_def mask_e0 read_continuation_1 bad_codepoint_number
        simp del: read_continuation.simps valid_utf8.simps)
qed

lemma valid_utf8_3:
  assumes "224 \<le> unat b" and "unat b < 240"
  shows "valid_utf8 (b # bytes) \<longleftrightarrow>
     (\<exists>c1 c2 rest. bytes = c1 # c2 # rest \<and> continuation_byte c1 \<and> continuation_byte c2 \<and>
        \<not> bad_number 2 ((unat b mod 16 * 64 + unat c1 mod 64) * 64 + unat c2 mod 64) \<and>
        valid_utf8 rest)"
proof (cases "\<exists>c1 c2 rest. bytes = c1 # c2 # rest")
  case False
  then have "length bytes < 2" by (cases bytes; cases "tl bytes") auto
  with False assms show ?thesis by (auto simp: word_less_nat_alt utf8_lead_def mask_e0 mask_f0)
next
  case True
  then obtain c1 c2 rest where bytes: "bytes = c1 # c2 # rest" by blast
  note lt = mod_less_divisor [of 16 "unat b"] mod_less_divisor [of 64 "unat c1"]
  have "unat (shift_in (ucast (b AND 0x0f)) c1) = unat b mod 16 * 64 + unat c1 mod 64"
    by (simp add: unat_shift_in unat_lead_bits)
  then have "unat (shift_in (shift_in (ucast (b AND 0x0f)) c1) c2)
      = (unat b mod 16 * 64 + unat c1 mod 64) * 64 + unat c2 mod 64"
    using lt by (simp add: unat_shift_in)
  with assms show ?thesis
    by (subst valid_utf8.simps)
       (auto simp: bytes word_less_nat_alt utf8_lead_def mask_e0 mask_f0 read_continuation_2
        bad_codepoint_number simp del: read_continuation.simps valid_utf8.simps)
qed

lemma valid_utf8_4:
  assumes "240 \<le> unat b" and "unat b < 248"
  shows "valid_utf8 (b # bytes) \<longleftrightarrow>
     (\<exists>c1 c2 c3 rest. bytes = c1 # c2 # c3 # rest \<and>
        continuation_byte c1 \<and> continuation_byte c2 \<and> continuation_byte c3 \<and>
        \<not> bad_number 3 (((unat b mod 8 * 64 + unat c1 mod 64) * 64 + unat c2 mod 64) * 64
                          + unat c3 mod 64) \<and>
        valid_utf8 rest)"
proof (cases "\<exists>c1 c2 c3 rest. bytes = c1 # c2 # c3 # rest")
  case False
  then have "length bytes < 3" by (cases bytes; cases "tl bytes"; cases "tl (tl bytes)") auto
  with False assms show ?thesis
    by (auto simp: word_less_nat_alt utf8_lead_def mask_e0 mask_f0 mask_f8)
next
  case True
  then obtain c1 c2 c3 rest where bytes: "bytes = c1 # c2 # c3 # rest" by blast
  note lt = mod_less_divisor [of 8 "unat b"] mod_less_divisor [of 64 "unat c1"]
    mod_less_divisor [of 64 "unat c2"]
  have "unat (shift_in (ucast (b AND 0x07)) c1) = unat b mod 8 * 64 + unat c1 mod 64"
    by (simp add: unat_shift_in unat_lead_bits)
  then have "unat (shift_in (shift_in (ucast (b AND 0x07)) c1) c2)
      = (unat b mod 8 * 64 + unat c1 mod 64) * 64 + unat c2 mod 64"
    using lt by (simp add: unat_shift_in)
  then have "unat (shift_in (shift_in (shift_in (ucast (b AND 0x07)) c1) c2) c3)
      = ((unat b mod 8 * 64 + unat c1 mod 64) * 64 + unat c2 mod 64) * 64 + unat c3 mod 64"
    using lt by (simp add: unat_shift_in)
  with assms show ?thesis
    by (subst valid_utf8.simps)
       (auto simp: bytes word_less_nat_alt utf8_lead_def mask_e0 mask_f0 mask_f8 read_continuation_3
        bad_codepoint_number simp del: read_continuation.simps valid_utf8.simps)
qed

lemma valid_utf8_bad_lead:
  "128 \<le> unat b \<Longrightarrow> unat b < 192 \<or> 248 \<le> unat b \<Longrightarrow> \<not> valid_utf8 (b # bytes)"
  by (auto simp: word_less_nat_alt utf8_lead_def mask_e0 mask_f0 mask_f8)

section \<open>Equivalence with the reference\<close>

lemma encoded_bits:
  "x < 32 \<Longrightarrow> (192 + x) mod 32 = (x :: nat)" "x < 16 \<Longrightarrow> (224 + x) mod 16 = (x :: nat)"
  "x < 8 \<Longrightarrow> (240 + x) mod 8 = (x :: nat)" "(128 + y mod 64) mod 64 = (y mod 64 :: nat)"
proof -
  have "(192 + x) mod 32 = (x + 6 * 32) mod 32" by (simp add: add.commute)
  then show "x < 32 \<Longrightarrow> (192 + x) mod 32 = x" by (simp only: mod_mult_self1 mod_less)
  have "(224 + x) mod 16 = (x + 14 * 16) mod 16" by (simp add: add.commute)
  then show "x < 16 \<Longrightarrow> (224 + x) mod 16 = x" by (simp only: mod_mult_self1 mod_less)
  have "(240 + x) mod 8 = (x + 30 * 8) mod 8" by (simp add: add.commute)
  then show "x < 8 \<Longrightarrow> (240 + x) mod 8 = x" by (simp only: mod_mult_self1 mod_less)
  have "(128 + y mod 64) mod 64 = (y mod 64 + 2 * 64) mod 64" by (simp add: add.commute)
  then show "(128 + y mod 64) mod 64 = y mod 64" by (simp only: mod_mult_self1 mod_mod_trivial)
qed

lemma byte_bits:
  "192 \<le> b \<Longrightarrow> b < 224 \<Longrightarrow> b mod 32 = (b - 192 :: nat)"
  "224 \<le> b \<Longrightarrow> b < 240 \<Longrightarrow> b mod 16 = (b - 224 :: nat)"
  "240 \<le> b \<Longrightarrow> b < 248 \<Longrightarrow> b mod 8 = (b - 240 :: nat)"
  "128 \<le> b \<Longrightarrow> b < 192 \<Longrightarrow> b mod 64 = (b - 128 :: nat)"
  using encoded_bits(1) [of "b - 192"] encoded_bits(2) [of "b - 224"] encoded_bits(3) [of "b - 240"]
    encoded_bits(4) [of "b - 128"]
  by (simp_all add: le_add_diff_inverse)

text \<open>The groups of six bits put a code point together again.\<close>

lemma join_bits_2: "(cp div 4096 * 64 + cp div 64 mod 64) * 64 + cp mod 64 = (cp :: nat)"
proof -
  have "cp div 4096 = cp div 64 div 64" by (simp add: div_mult2_eq [symmetric])
  then show ?thesis by (simp only: div_mult_mod_eq)
qed

lemma join_bits_3:
  "((cp div 262144 * 64 + cp div 4096 mod 64) * 64 + cp div 64 mod 64) * 64 + cp mod 64 = (cp :: nat)"
proof -
  have "cp div 262144 = cp div 64 div 4096" and "cp div 4096 = cp div 64 div 64"
    by (simp_all add: div_mult2_eq [symmetric])
  then show ?thesis by (simp only: join_bits_2 div_mult_mod_eq)
qed

lemma valid_utf8_encode_2:
  assumes "unat b = 0xc0 + cp div 64" and "unat c1 = 0x80 + cp mod 64"
    and "0x80 \<le> cp" and "cp < 0x800" and "scalar_value cp"
  shows "valid_utf8 (b # c1 # rest) = valid_utf8 rest"
proof -
  have "cp div 64 < 32" using assms(4) by simp
  then have "unat b mod 32 = cp div 64" and "unat c1 mod 64 = cp mod 64"
    and "192 \<le> unat b" and "unat b < 224"
    by (simp_all add: assms(1,2) encoded_bits)
  moreover have "cp div 64 * 64 + cp mod 64 = cp" by simp
  moreover have "continuation_byte c1"
    using assms(2) by (simp add: continuation_byte_def)
  ultimately show ?thesis
    using assms(3-5) by (subst valid_utf8_2) (simp_all add: bad_number_def del: valid_utf8.simps)
qed

lemma valid_utf8_encode_3:
  assumes "unat b = 0xe0 + cp div 4096" and "unat c1 = 0x80 + cp div 64 mod 64"
    and "unat c2 = 0x80 + cp mod 64"
    and "0x800 \<le> cp" and "cp < 0x10000" and "scalar_value cp"
  shows "valid_utf8 (b # c1 # c2 # rest) = valid_utf8 rest"
proof -
  have "cp div 4096 < 16" using assms(5) by simp
  then have bits: "unat b mod 16 = cp div 4096" "unat c1 mod 64 = cp div 64 mod 64"
    "unat c2 mod 64 = cp mod 64" and "224 \<le> unat b" and "unat b < 240"
    by (simp_all add: assms(1-3) encoded_bits)
  moreover have "(unat b mod 16 * 64 + unat c1 mod 64) * 64 + unat c2 mod 64 = cp"
    by (simp only: bits join_bits_2)
  moreover have "continuation_byte c1" and "continuation_byte c2"
    using assms(2,3) by (simp_all add: continuation_byte_def)
  ultimately show ?thesis
    using assms(4-6) by (simp only: valid_utf8_3 list.inject) (simp add: bad_number_def)
qed

lemma valid_utf8_encode_4:
  assumes "unat b = 0xf0 + cp div 262144" and "unat c1 = 0x80 + cp div 4096 mod 64"
    and "unat c2 = 0x80 + cp div 64 mod 64" and "unat c3 = 0x80 + cp mod 64"
    and "0x10000 \<le> cp" and "cp \<le> 0x10ffff" and "scalar_value cp"
  shows "valid_utf8 (b # c1 # c2 # c3 # rest) = valid_utf8 rest"
proof -
  have "cp div 262144 < 8" using assms(6) by simp
  then have bits: "unat b mod 8 = cp div 262144" "unat c1 mod 64 = cp div 4096 mod 64"
    "unat c2 mod 64 = cp div 64 mod 64" "unat c3 mod 64 = cp mod 64"
    and "240 \<le> unat b" and "unat b < 248"
    by (simp_all add: assms(1-4) encoded_bits)
  moreover have "((unat b mod 8 * 64 + unat c1 mod 64) * 64 + unat c2 mod 64) * 64
      + unat c3 mod 64 = cp"
    by (simp only: bits join_bits_3)
  moreover have "continuation_byte c1" and "continuation_byte c2" and "continuation_byte c3"
    using assms(2-4) by (simp_all add: continuation_byte_def)
  ultimately show ?thesis
    using assms(5-7) by (simp only: valid_utf8_4 list.inject) (simp add: bad_number_def)
qed

text \<open>The encoding of a scalar value in front of any bytes is read as one unit.\<close>

lemma valid_utf8_encode:
  assumes "scalar_value cp" and "map unat pre = utf8_encode cp"
  shows "valid_utf8 (pre @ rest) = valid_utf8 rest"
proof -
  consider "cp < 0x80" | "0x80 \<le> cp" "cp < 0x800" | "0x800 \<le> cp" "cp < 0x10000"
    | "0x10000 \<le> cp" "cp \<le> 0x10ffff"
    using assms(1) unfolding scalar_value_def by linarith
  then show ?thesis
  proof cases
    case 1
    then show ?thesis
      using assms(2) by (auto simp: utf8_encode_def valid_utf8_1 simp del: valid_utf8.simps)
  next
    case 2
    then show ?thesis
      using assms by (auto simp: utf8_encode_def map_eq_Cons_conv simp del: valid_utf8.simps
          simp: valid_utf8_encode_2 [where cp = cp])
  next
    case 3
    then show ?thesis
      using assms by (auto simp: utf8_encode_def map_eq_Cons_conv simp del: valid_utf8.simps
          simp: valid_utf8_encode_3 [where cp = cp])
  next
    case 4
    then show ?thesis
      using assms by (auto simp: utf8_encode_def map_eq_Cons_conv simp del: valid_utf8.simps
          simp: valid_utf8_encode_4 [where cp = cp])
  qed
qed

lemma split_bits_1:
  assumes "z < 64"
  shows "(w * 64 + z) div 64 = (w :: nat)" and "(w * 64 + z) mod 64 = z"
  using assms by simp_all

lemma split_bits_2:
  assumes "y < 64" and "z < 64"
  shows "((x * 64 + y) * 64 + z) div 4096 = (x :: nat)"
    and "((x * 64 + y) * 64 + z) div 64 mod 64 = y"
    and "((x * 64 + y) * 64 + z) mod 64 = z"
proof -
  have "((x * 64 + y) * 64 + z) div 4096 = ((x * 64 + y) * 64 + z) div 64 div 64"
    by (simp only: div_mult2_eq [symmetric]) simp
  then show "((x * 64 + y) * 64 + z) div 4096 = x"
    by (simp only: split_bits_1 assms)
  show "((x * 64 + y) * 64 + z) div 64 mod 64 = y" "((x * 64 + y) * 64 + z) mod 64 = z"
    by (simp_all only: split_bits_1 assms)
qed

lemma split_bits_3:
  assumes "x < 64" and "y < 64" and "z < 64"
  shows "(((w * 64 + x) * 64 + y) * 64 + z) div 262144 = (w :: nat)"
    and "(((w * 64 + x) * 64 + y) * 64 + z) div 4096 mod 64 = x"
    and "(((w * 64 + x) * 64 + y) * 64 + z) div 64 mod 64 = y"
    and "(((w * 64 + x) * 64 + y) * 64 + z) mod 64 = z"
proof -
  have "(((w * 64 + x) * 64 + y) * 64 + z) div 262144
      = (((w * 64 + x) * 64 + y) * 64 + z) div 4096 div 64"
    by (simp only: div_mult2_eq [symmetric]) simp
  then show "(((w * 64 + x) * 64 + y) * 64 + z) div 262144 = w"
    by (simp only: split_bits_1 split_bits_2 assms)
  show "(((w * 64 + x) * 64 + y) * 64 + z) div 4096 mod 64 = x"
    "(((w * 64 + x) * 64 + y) * 64 + z) div 64 mod 64 = y"
    "(((w * 64 + x) * 64 + y) * 64 + z) mod 64 = z"
    by (simp_all only: split_bits_1 split_bits_2 assms)
qed

text \<open>
  The other way round: whatever the validator accepts starts with the encoding of a scalar
  value.
\<close>

lemma utf8_decode_2:
  assumes "192 \<le> b" "b < 224" "128 \<le> c1" "c1 < 192"
    and "\<not> bad_number 1 (b mod 32 * 64 + c1 mod 64)"
  shows "\<exists>cp. scalar_value cp \<and> utf8_encode cp = [b, c1]"
proof -
  let ?x = "b - 192" and ?y = "c1 - 128"
  have b: "b = 192 + ?x" "?x < 32" and c: "c1 = 128 + ?y" "?y < 64" using assms(1-4) by auto
  have "b mod 32 = ?x" "c1 mod 64 = ?y"
    using assms(1-4) by (simp_all add: byte_bits)
  then have ok: "0x80 \<le> ?x * 64 + ?y" "scalar_value (?x * 64 + ?y)"
    using assms(5) by (simp_all add: bad_number_def)
  have "utf8_encode (?x * 64 + ?y) = [192 + ?x, 128 + ?y]"
    using ok b(2) c(2) by (simp add: utf8_encode_def)
  with ok(2) b(1) c(1) show ?thesis by metis
qed

lemma utf8_decode_3:
  assumes "224 \<le> b" "b < 240" "128 \<le> c1" "c1 < 192" "128 \<le> c2" "c2 < 192"
    and "\<not> bad_number 2 ((b mod 16 * 64 + c1 mod 64) * 64 + c2 mod 64)"
  shows "\<exists>cp. scalar_value cp \<and> utf8_encode cp = [b, c1, c2]"
proof -
  let ?x = "b - 224" and ?y = "c1 - 128" and ?z = "c2 - 128"
  let ?cp = "(?x * 64 + ?y) * 64 + ?z"
  have b: "b = 224 + ?x" "?x < 16" and c1: "c1 = 128 + ?y" "?y < 64" and c2: "c2 = 128 + ?z" "?z < 64"
    using assms(1-6) by auto
  have "b mod 16 = ?x" "c1 mod 64 = ?y" "c2 mod 64 = ?z"
    using assms(1-6) by (simp_all add: byte_bits)
  then have ok: "0x800 \<le> ?cp" "scalar_value ?cp"
    using assms(7) by (simp_all add: bad_number_def)
  note split = split_bits_2 [OF c1(2) c2(2), of ?x]
  have "?cp < 0x10000" using b(2) c1(2) c2(2) by simp
  then have "utf8_encode ?cp = [224 + ?x, 128 + ?y, 128 + ?z]"
    using ok(1) by (simp only: utf8_encode_def split) simp
  with ok(2) b(1) c1(1) c2(1) show ?thesis by metis
qed

lemma utf8_decode_4:
  assumes "240 \<le> b" "b < 248" "128 \<le> c1" "c1 < 192" "128 \<le> c2" "c2 < 192" "128 \<le> c3" "c3 < 192"
    and "\<not> bad_number 3 (((b mod 8 * 64 + c1 mod 64) * 64 + c2 mod 64) * 64 + c3 mod 64)"
  shows "\<exists>cp. scalar_value cp \<and> utf8_encode cp = [b, c1, c2, c3]"
proof -
  let ?w = "b - 240" and ?x = "c1 - 128" and ?y = "c2 - 128" and ?z = "c3 - 128"
  let ?cp = "((?w * 64 + ?x) * 64 + ?y) * 64 + ?z"
  have b: "b = 240 + ?w" "?w < 8" and c1: "c1 = 128 + ?x" "?x < 64"
    and c2: "c2 = 128 + ?y" "?y < 64" and c3: "c3 = 128 + ?z" "?z < 64"
    using assms(1-8) by auto
  have "b mod 8 = ?w" "c1 mod 64 = ?x" "c2 mod 64 = ?y" "c3 mod 64 = ?z"
    using assms(1-8) by (simp_all add: byte_bits)
  then have ok: "0x10000 \<le> ?cp" "scalar_value ?cp"
    using assms(9) by (simp_all add: bad_number_def)
  note split = split_bits_3 [OF c1(2) c2(2) c3(2), of ?w]
  have "utf8_encode ?cp = [240 + ?w, 128 + ?x, 128 + ?y, 128 + ?z]"
    using ok(1) by (simp only: utf8_encode_def split) simp
  with ok(2) b(1) c1(1) c2(1) c3(1) show ?thesis by metis
qed

lemma valid_utf8_starts:
  assumes "valid_utf8 (b # bytes)"
  shows "\<exists>cp pre rest. scalar_value cp \<and> b # bytes = pre @ rest \<and> map unat pre = utf8_encode cp"
proof -
  consider "unat b < 128" | "192 \<le> unat b" "unat b < 224" | "224 \<le> unat b" "unat b < 240"
    | "240 \<le> unat b" "unat b < 248"
    using valid_utf8_bad_lead assms by (metis not_le)
  then show ?thesis
  proof cases
    case 1
    then have "scalar_value (unat b)" "map unat [b] = utf8_encode (unat b)"
      by (simp_all add: scalar_value_def utf8_encode_def)
    then show ?thesis by (metis append_Cons append_Nil)
  next
    case 2
    with assms obtain c1 rest where bytes: "bytes = c1 # rest" and "continuation_byte c1"
      and "\<not> bad_number 1 (unat b mod 32 * 64 + unat c1 mod 64)"
      by (auto simp: valid_utf8_2 simp del: valid_utf8.simps)
    with 2 obtain cp where "scalar_value cp" "utf8_encode cp = map unat [b, c1]"
      using utf8_decode_2 [of "unat b" "unat c1"] by (auto simp: continuation_byte_def)
    with bytes show ?thesis by (metis append_Cons append_Nil)
  next
    case 3
    with assms obtain c1 c2 rest where bytes: "bytes = c1 # c2 # rest"
      and "continuation_byte c1" "continuation_byte c2"
      and "\<not> bad_number 2 ((unat b mod 16 * 64 + unat c1 mod 64) * 64 + unat c2 mod 64)"
      by (auto simp: valid_utf8_3 simp del: valid_utf8.simps)
    with 3 obtain cp where "scalar_value cp" "utf8_encode cp = map unat [b, c1, c2]"
      using utf8_decode_3 [of "unat b" "unat c1" "unat c2"] by (auto simp: continuation_byte_def)
    with bytes show ?thesis by (metis append_Cons append_Nil)
  next
    case 4
    with assms obtain c1 c2 c3 rest where bytes: "bytes = c1 # c2 # c3 # rest"
      and "continuation_byte c1" "continuation_byte c2" "continuation_byte c3"
      and "\<not> bad_number 3 (((unat b mod 8 * 64 + unat c1 mod 64) * 64 + unat c2 mod 64) * 64
             + unat c3 mod 64)"
      by (auto simp: valid_utf8_4 simp del: valid_utf8.simps)
    with 4 obtain cp where "scalar_value cp" "utf8_encode cp = map unat [b, c1, c2, c3]"
      using utf8_decode_4 [of "unat b" "unat c1" "unat c2" "unat c3"]
      by (auto simp: continuation_byte_def)
    with bytes show ?thesis by (metis append_Cons append_Nil)
  qed
qed

text \<open>
  C23. The UTF-8 validator accepts a byte sequence exactly when it is well-formed UTF-8: the
  concatenation of the shortest encodings of Unicode scalar values, so that overlong forms,
  surrogates, code points past U+10FFFF, stray continuation bytes and truncated sequences are
  all rejected and nothing else is.
\<close>

theorem valid_utf8_iff:
  "valid_utf8 bytes \<longleftrightarrow>
     (\<exists>cps. list_all scalar_value cps \<and> map unat bytes = concat (map utf8_encode cps))"
proof
  show "valid_utf8 bytes \<Longrightarrow>
      \<exists>cps. list_all scalar_value cps \<and> map unat bytes = concat (map utf8_encode cps)"
  proof (induction bytes rule: length_induct)
    case (1 bytes)
    show ?case
    proof (cases bytes)
      case Nil
      then show ?thesis by (intro exI [of _ "[]"]) simp
    next
      case (Cons b bs)
      with "1.prems" obtain cp pre rest where cp: "scalar_value cp" and split: "bytes = pre @ rest"
        and pre: "map unat pre = utf8_encode cp"
        using valid_utf8_starts by metis
      have "pre \<noteq> []" using pre by (auto simp: utf8_encode_def split: if_splits)
      moreover have "valid_utf8 rest"
        using "1.prems" valid_utf8_encode [OF cp pre] by (simp add: split)
      ultimately obtain cps where "list_all scalar_value cps"
        and "map unat rest = concat (map utf8_encode cps)"
        using "1.IH" [rule_format, of rest] by (auto simp: split)
      with cp pre split show ?thesis by (intro exI [of _ "cp # cps"]) simp
    qed
  qed
next
  assume "\<exists>cps. list_all scalar_value cps \<and> map unat bytes = concat (map utf8_encode cps)"
  then obtain cps where "list_all scalar_value cps" and "map unat bytes = concat (map utf8_encode cps)"
    by blast
  then show "valid_utf8 bytes"
  proof (induction cps arbitrary: bytes)
    case Nil
    then show ?case by simp
  next
    case (Cons cp cps)
    then obtain pre rest where "bytes = pre @ rest" and "map unat pre = utf8_encode cp"
      and "map unat rest = concat (map utf8_encode cps)"
      by (auto simp: map_eq_append_conv)
    with Cons show ?case by (simp add: valid_utf8_encode [where cp = cp])
  qed
qed

end
