(* ===== verification/Watch_Protocol.thy ===== *)
theory Watch_Protocol
  imports Json_Api Utf8
begin

text \<open>
  The protocol codec (\<open>watch/src/protocol/watch_protocol.h\<close> and \<open>watch_protocol.c\<close>): the
  registered message types with their required payload fields, the envelope decoder
  \<open>watch_protocol_decode\<close> with its checks in the code's order, and the lookup of a type's
  name. A successful decode is characterised by a specification of the envelope,
  \<open>envelope_ok\<close>, that says nothing about loops or bit masks.
\<close>

section \<open>Message types and results\<close>

datatype watch_message_type =
    WATCH_MESSAGE_STATE_SET
  | WATCH_MESSAGE_STATE_PATCH
  | WATCH_MESSAGE_LIST_INSERT
  | WATCH_MESSAGE_LIST_REMOVE
  | WATCH_MESSAGE_LIST_UPDATE
  | WATCH_MESSAGE_REFRESH
  | WATCH_MESSAGE_APP_OPEN
  | WATCH_MESSAGE_SHOW_TOAST
  | WATCH_MESSAGE_SHOW_DIALOG
  | WATCH_MESSAGE_CACHE_INVALIDATE
  | WATCH_MESSAGE_APP_OPENED
  | WATCH_MESSAGE_ACTION
  | WATCH_MESSAGE_BUTTON
  | WATCH_MESSAGE_GESTURE
  | WATCH_MESSAGE_INPUT
  | WATCH_MESSAGE_REFRESH_REQUEST
  | WATCH_MESSAGE_HELLO
  | WATCH_MESSAGE_CAPABILITIES
  | WATCH_MESSAGE_PING
  | WATCH_MESSAGE_PONG
  | WATCH_MESSAGE_SYNC_REQUEST
  | WATCH_MESSAGE_SYNC_RESPONSE
  | WATCH_MESSAGE_COMMAND_RESULT

datatype watch_protocol_result =
    WATCH_PROTOCOL_OK
  | WATCH_PROTOCOL_INVALID_JSON
  | WATCH_PROTOCOL_INVALID_UTF8
  | WATCH_PROTOCOL_FRAME_TOO_LARGE
  | WATCH_PROTOCOL_UNSUPPORTED_VERSION
  | WATCH_PROTOCOL_UNKNOWN_TYPE
  | WATCH_PROTOCOL_MISSING_FIELD

definition WATCH_PROTOCOL_VERSION :: u32 where
  "WATCH_PROTOCOL_VERSION = 1"

definition WATCH_PROTOCOL_MAX_FRAME_SIZE :: nat where
  "WATCH_PROTOCOL_MAX_FRAME_SIZE = 16384"

text \<open>
  A decoded message. \<open>payload\<close> is the span the C message points at, so \<open>payload_len\<close> is
  its length.
\<close>

record watch_protocol_message =
  msg_type :: watch_message_type
  msg_id :: u32
  msg_reply_to :: u32
  has_reply_to :: bool
  payload :: string

definition zero_message :: watch_protocol_message where
  "zero_message = \<lparr>msg_type = WATCH_MESSAGE_STATE_SET, msg_id = 0, msg_reply_to = 0,
                   has_reply_to = False, payload = []\<rparr>"

text \<open>
  One row of the table: the wire name, the type and the five slots of required payload fields
  (\<open>None\<close> is a NULL slot).
\<close>

record message_type_entry =
  entry_name :: string
  entry_type :: watch_message_type
  required :: "string option list"

definition entry :: "string \<Rightarrow> watch_message_type \<Rightarrow> string list \<Rightarrow> message_type_entry" where
  "entry n t keys = \<lparr>entry_name = n, entry_type = t,
     required = map Some keys @ replicate (5 - length keys) None\<rparr>"

definition message_types :: "message_type_entry list" where
  "message_types =
     [entry ''state_set'' WATCH_MESSAGE_STATE_SET [''path'', ''value'', ''revision''],
      entry ''state_patch'' WATCH_MESSAGE_STATE_PATCH [''path'', ''value'', ''revision''],
      entry ''list_insert'' WATCH_MESSAGE_LIST_INSERT [''path'', ''index'', ''value'', ''revision''],
      entry ''list_remove'' WATCH_MESSAGE_LIST_REMOVE [''path'', ''index'', ''revision''],
      entry ''list_update'' WATCH_MESSAGE_LIST_UPDATE [''path'', ''index'', ''value'', ''revision''],
      entry ''refresh'' WATCH_MESSAGE_REFRESH [''scope''],
      entry ''app_open'' WATCH_MESSAGE_APP_OPEN [''app_id''],
      entry ''show_toast'' WATCH_MESSAGE_SHOW_TOAST [''message'', ''duration_ms''],
      entry ''show_dialog'' WATCH_MESSAGE_SHOW_DIALOG [''title'', ''message'', ''actions''],
      entry ''cache_invalidate'' WATCH_MESSAGE_CACHE_INVALIDATE [''path''],
      entry ''app_opened'' WATCH_MESSAGE_APP_OPENED [''app_id''],
      entry ''action'' WATCH_MESSAGE_ACTION [''app_id'', ''action_id'', ''arguments''],
      entry ''button'' WATCH_MESSAGE_BUTTON [''button'', ''gesture''],
      entry ''gesture'' WATCH_MESSAGE_GESTURE [''gesture''],
      entry ''input'' WATCH_MESSAGE_INPUT [''input_id'', ''value''],
      entry ''refresh_request'' WATCH_MESSAGE_REFRESH_REQUEST [''scope''],
      entry ''hello'' WATCH_MESSAGE_HELLO
        [''device_id'', ''session_id'', ''runtime_version'', ''protocol_versions'', ''simulator''],
      entry ''capabilities'' WATCH_MESSAGE_CAPABILITIES [''features'', ''apps'', ''display''],
      entry ''ping'' WATCH_MESSAGE_PING [''nonce''],
      entry ''pong'' WATCH_MESSAGE_PONG [''nonce''],
      entry ''sync_request'' WATCH_MESSAGE_SYNC_REQUEST [''last_revision''],
      entry ''sync_response'' WATCH_MESSAGE_SYNC_RESPONSE [''revision'', ''state''],
      entry ''command_result'' WATCH_MESSAGE_COMMAND_RESULT [''status'', ''code'']]"

section \<open>Lookups\<close>

fun search_name :: "message_type_entry list \<Rightarrow> string \<Rightarrow> message_type_entry option" where
  "search_name [] span = None"
| "search_name (e # es) span =
     (if span_equal span (entry_name e) then Some e else search_name es span)"

definition find_type :: "json_token \<Rightarrow> message_type_entry option" where
  "find_type token =
     (if tok_type token \<noteq> JSON_TOK_STRING then None
      else search_name message_types (tok_text token))"

fun search_type :: "message_type_entry list \<Rightarrow> watch_message_type \<Rightarrow> string" where
  "search_type [] type = ''unknown''"
| "search_type (e # es) type = (if entry_type e = type then entry_name e else search_type es type)"

definition watch_message_type_name :: "watch_message_type \<Rightarrow> string" where
  "watch_message_type_name type = search_type message_types type"

section \<open>Unsigned numbers of the envelope\<close>

fun parse_u32_loop :: "string \<Rightarrow> u64 \<Rightarrow> errno + u64" where
  "parse_u32_loop [] result = Inr result"
| "parse_u32_loop (c # cursor) result =
     (if not_digit c then Inl EINVAL
      else let result = result * 10 + of_nat (digit_value c) in
        if result > 0xffffffff then Inl ERANGE else parse_u32_loop cursor result)"

definition parse_u32 :: "json_token \<Rightarrow> errno + u32" where
  "parse_u32 token =
     (if tok_type token \<noteq> JSON_TOK_NUMBER \<or> tok_text token = [] then Inl EINVAL
      else case parse_u32_loop (tok_text token) 0 of
        Inl e \<Rightarrow> Inl e
      | Inr result \<Rightarrow> Inr (ucast result))"

section \<open>Payload validation\<close>

definition BIT :: "nat \<Rightarrow> u32" where
  "BIT i = push_bit i 1"

text \<open>The inner loop over the five slots, from slot \<open>i\<close> on.\<close>

fun mark_required :: "string option list \<Rightarrow> nat \<Rightarrow> string \<Rightarrow> u32 \<Rightarrow> u32" where
  "mark_required [] i key found = found"
| "mark_required (slot # slots) i key found =
     mark_required slots (i + 1) key
       (case slot of
          None \<Rightarrow> found
        | Some name \<Rightarrow> if span_equal key name then found OR BIT i else found)"

fun collect_required :: "message_type_entry \<Rightarrow> json_obj \<Rightarrow> u32 \<Rightarrow> watch_protocol_result + u32" where
  "collect_required e Obj_Error found = Inl WATCH_PROTOCOL_INVALID_JSON"
| "collect_required e Obj_End found = Inr found"
| "collect_required e (Obj_Pair key value object) found =
     collect_required e object (mark_required (required e) 0 key found)"

fun missing_required :: "string option list \<Rightarrow> nat \<Rightarrow> u32 \<Rightarrow> bool" where
  "missing_required [] i found = False"
| "missing_required (slot # slots) i found =
     (slot \<noteq> None \<and> found AND BIT i = 0 \<or> missing_required slots (i + 1) found)"

definition validate_payload :: "json_lib \<Rightarrow> string \<Rightarrow> message_type_entry \<Rightarrow> watch_protocol_result" where
  "validate_payload J text e =
     (case json_obj_separate_parse_init J text of
        None \<Rightarrow> WATCH_PROTOCOL_INVALID_JSON
      | Some object \<Rightarrow>
          (case collect_required e object 0 of
             Inl error \<Rightarrow> error
           | Inr found \<Rightarrow>
               if missing_required (required e) 0 found then WATCH_PROTOCOL_MISSING_FIELD
               else WATCH_PROTOCOL_OK))"

section \<open>Envelope decoding\<close>

text \<open>A result code, with the message the caller reads when the code is OK.\<close>

definition reported :: "watch_protocol_result \<Rightarrow> 'a \<Rightarrow> watch_protocol_result + 'a" where
  "reported result message = (if result = WATCH_PROTOCOL_OK then Inr message else Inl result)"

text \<open>The local variables of \<open>watch_protocol_decode\<close>.\<close>

record decode_state =
  dec_entry :: "message_type_entry option"
  dec_version :: u32
  dec_fields :: u32
  dec_message :: watch_protocol_message

fun decode_loop :: "json_obj \<Rightarrow> decode_state \<Rightarrow> watch_protocol_result + decode_state" where
  "decode_loop Obj_Error d = Inl WATCH_PROTOCOL_INVALID_JSON"
| "decode_loop Obj_End d = Inr d"
| "decode_loop (Obj_Pair key value object) d =
     (if span_equal key ''version'' then
        (case parse_u32 value of
           Inl _ \<Rightarrow> Inl WATCH_PROTOCOL_INVALID_JSON
         | Inr version \<Rightarrow>
             decode_loop object (d\<lparr>dec_version := version, dec_fields := dec_fields d OR BIT 0\<rparr>))
      else if span_equal key ''type'' then
        decode_loop object (d\<lparr>dec_entry := find_type value, dec_fields := dec_fields d OR BIT 1\<rparr>)
      else if span_equal key ''id'' then
        (case parse_u32 value of
           Inl _ \<Rightarrow> Inl WATCH_PROTOCOL_INVALID_JSON
         | Inr n \<Rightarrow>
             decode_loop object (d\<lparr>dec_message := (dec_message d)\<lparr>msg_id := n\<rparr>,
                                   dec_fields := dec_fields d OR BIT 2\<rparr>))
      else if span_equal key ''reply_to'' then
        (case parse_u32 value of
           Inl _ \<Rightarrow> Inl WATCH_PROTOCOL_INVALID_JSON
         | Inr n \<Rightarrow>
             decode_loop object (d\<lparr>dec_message := (dec_message d)\<lparr>msg_reply_to := n,
                                                                 has_reply_to := True\<rparr>\<rparr>))
      else if span_equal key ''payload'' then
        (if tok_type value \<noteq> JSON_TOK_OBJECT_START then Inl WATCH_PROTOCOL_INVALID_JSON
         else decode_loop object (d\<lparr>dec_message := (dec_message d)\<lparr>payload := tok_text value\<rparr>,
                                    dec_fields := dec_fields d OR BIT 3\<rparr>))
      else decode_loop object d)"

definition watch_protocol_decode ::
    "json_lib \<Rightarrow> string \<Rightarrow> watch_protocol_result + watch_protocol_message" where
  "watch_protocol_decode J frame =
     (if length frame = 0 then Inl WATCH_PROTOCOL_INVALID_JSON
      else if length frame > WATCH_PROTOCOL_MAX_FRAME_SIZE then Inl WATCH_PROTOCOL_FRAME_TOO_LARGE
      else if \<not> valid_utf8 (map u8_of_char frame) then Inl WATCH_PROTOCOL_INVALID_UTF8
      else case json_obj_separate_parse_init J frame of
        None \<Rightarrow> Inl WATCH_PROTOCOL_INVALID_JSON
      | Some object \<Rightarrow>
          (case decode_loop object \<lparr>dec_entry = None, dec_version = 0, dec_fields = 0,
                                    dec_message = zero_message\<rparr> of
             Inl error \<Rightarrow> Inl error
           | Inr d \<Rightarrow>
               if dec_fields d \<noteq> (BIT 0 OR BIT 1 OR BIT 2 OR BIT 3)
               then Inl WATCH_PROTOCOL_MISSING_FIELD
               else if dec_version d \<noteq> WATCH_PROTOCOL_VERSION
               then Inl WATCH_PROTOCOL_UNSUPPORTED_VERSION
               else (case dec_entry d of
                   None \<Rightarrow> Inl WATCH_PROTOCOL_UNKNOWN_TYPE
                 | Some e \<Rightarrow>
                     (let message = (dec_message d)\<lparr>msg_type := entry_type e\<rparr> in
                      if msg_type message = WATCH_MESSAGE_COMMAND_RESULT \<and> \<not> has_reply_to message
                      then Inl WATCH_PROTOCOL_MISSING_FIELD
                      else reported (validate_payload J (payload message) e) message))))"

section \<open>The type table\<close>

lemma search_name_Some:
  "search_name es span = Some e \<Longrightarrow> e \<in> set es \<and> entry_name e = span"
  by (induction es) (auto split: if_splits)

lemma find_type_Some:
  "find_type tok = Some e \<Longrightarrow>
     tok_type tok = JSON_TOK_STRING \<and> e \<in> set message_types \<and> entry_name e = tok_text tok"
  by (auto simp: find_type_def split: if_splits dest: search_name_Some)

lemma find_type_name:
  "\<exists>e. find_type \<lparr>tok_type = JSON_TOK_STRING, tok_text = watch_message_type_name t\<rparr> = Some e \<and>
        entry_type e = t \<and> length (required e) = 5 \<and> hd (required e) \<noteq> None"
  by (cases t)
     (simp_all add: find_type_def watch_message_type_name_def message_types_def entry_def)

lemma watch_message_type_name_inject:
  "watch_message_type_name t = watch_message_type_name t' \<longleftrightarrow> t = t'"
  by (metis find_type_name option.inject)

lemma search_type_distinct:
  "distinct (map entry_type es) \<Longrightarrow> e \<in> set es \<Longrightarrow> search_type es (entry_type e) = entry_name e"
  by (induction es) auto

lemma distinct_message_types: "distinct (map entry_type message_types)"
  by (simp add: message_types_def entry_def)

lemma message_types_named:
  "e \<in> set message_types \<Longrightarrow> watch_message_type_name (entry_type e) = entry_name e"
  unfolding watch_message_type_name_def
  by (rule search_type_distinct [OF distinct_message_types])

lemma message_types_slots: "list_all (\<lambda>e. length (required e) = 5) message_types"
  by (simp add: message_types_def entry_def)

text \<open>
  The table of message types is a bijection between the 23 types and their wire names:
  looking up the name of a type finds the entry of that very type, whatever a lookup finds
  carries the name it was asked for, two types never share a name, and each entry has exactly
  five slots of required fields, at least one of them used.
\<close>

theorem message_type_table:
  "(\<exists>e. find_type \<lparr>tok_type = JSON_TOK_STRING, tok_text = watch_message_type_name t\<rparr> = Some e \<and>
        entry_type e = t \<and> length (required e) = 5 \<and> hd (required e) \<noteq> None) \<and>
   (watch_message_type_name t = watch_message_type_name t' \<longleftrightarrow> t = t') \<and>
   (find_type tok = Some e \<longrightarrow>
      tok_type tok = JSON_TOK_STRING \<and> tok_text tok = watch_message_type_name (entry_type e))"
  by (intro conjI impI find_type_name watch_message_type_name_inject)
     (simp_all add: find_type_Some message_types_named)

theorem message_type_table_witness:
  "watch_message_type_name WATCH_MESSAGE_PING \<noteq> watch_message_type_name WATCH_MESSAGE_PONG"
  using message_type_table [of WATCH_MESSAGE_PING WATCH_MESSAGE_PONG 
      "\<lparr>tok_type = JSON_TOK_OTHER, tok_text = []\<rparr>" "entry [] WATCH_MESSAGE_PING []"]
  by simp

section \<open>Numbers\<close>

lemma parse_u32_loop_iff:
  assumes "unat result < 2 ^ 32"
  shows "parse_u32_loop s result = Inr v \<longleftrightarrow>
           list_all (\<lambda>c. \<not> not_digit c) s \<and> unat v = decimal_from (unat result) s \<and> unat v < 2 ^ 32"
  using assms
proof (induction s arbitrary: result)
  case Nil
  then show ?case by (auto simp: word_unat_eq_iff)
next
  case (Cons c s)
  show ?case
  proof (cases "not_digit c")
    case True
    then show ?thesis by simp
  next
    case False
    let ?next = "result * 10 + word_of_nat (digit_value c) :: u64"
    have digit: "digit_value c < 10" using False by (rule digit_value_less)
    with Cons.prems have val: "unat ?next = unat result * 10 + digit_value c"
      by (simp add: unat_word_ariths unat_of_nat)
    show ?thesis
    proof (cases "?next > 0xffffffff")
      case True
      then have "2 ^ 32 \<le> unat result * 10 + digit_value c"
        using val by (simp add: word_less_nat_alt)
      then have "2 ^ 32 \<le> decimal_from (unat result) (c # s)"
        using decimal_from_mono [of "unat result * 10 + digit_value c" s] by simp
      with True False show ?thesis by auto
    next
      case small: False
      then have "unat ?next < 2 ^ 32" by (simp add: word_less_nat_alt not_less)
      with small False Cons.IH [of ?next] val show ?thesis by (simp add: Let_def)
    qed
  qed
qed

lemma parse_u32_iff:
  "parse_u32 tok = Inr v \<longleftrightarrow>
     tok_type tok = JSON_TOK_NUMBER \<and> all_digits (tok_text tok) \<and> decimal (tok_text tok) = unat v"
proof -
  have "(\<exists>r. parse_u32_loop (tok_text tok) 0 = Inr r \<and> ucast r = v) \<longleftrightarrow>
      list_all (\<lambda>c. \<not> not_digit c) (tok_text tok) \<and> decimal (tok_text tok) = unat v"
    (is "?parsed \<longleftrightarrow> ?number")
  proof
    assume ?parsed
    then show ?number
      by (auto simp: parse_u32_loop_iff decimal_def ucast_u64_u32)
  next
    assume ?number
    then have "parse_u32_loop (tok_text tok) 0 = Inr (ucast v)"
      by (simp add: parse_u32_loop_iff decimal_def unat_ucast_u32_u64)
    moreover have "ucast (ucast v :: u64) = v"
      by (simp add: word_unat_eq_iff ucast_u64_u32 unat_ucast_u32_u64)
    ultimately show ?parsed by blast
  qed
  then show ?thesis
    by (auto simp: parse_u32_def all_digits_def split: sum.splits)
qed

section \<open>Required fields\<close>

lemma BIT_eq: "BIT i = 2 ^ i"
  by (simp add: BIT_def push_bit_eq_mult)

lemma bit_BIT [simp]: "bit (BIT i) k \<longleftrightarrow> k = i \<and> i < 32"
  by (auto simp: BIT_eq bit_exp_iff)

lemma and_BIT_0 [simp]: "found AND BIT i = 0 \<longleftrightarrow> \<not> bit found i"
  by (simp add: BIT_eq and_exp_eq_0_iff_not_bit)

lemma bit_mark_required:
  "i + length slots \<le> 32 \<Longrightarrow>
   bit (mark_required slots i key found) k \<longleftrightarrow>
     bit found k \<or> (i \<le> k \<and> k < i + length slots \<and> slots ! (k - i) = Some key)"
proof (induction slots arbitrary: i found k)
  case Nil
  then show ?case by auto
next
  case (Cons slot slots)
  from Cons.prems show ?case
    by (cases "k = i"; cases slot)
       (auto simp: Cons.IH bit_or_iff nth_Cons' Suc_le_eq not_less_eq_eq le_less_Suc_eq)
qed

lemma collect_required_iff:
  "collect_required e obj found =
     (if obj_complete obj
      then Inr (fold (\<lambda>p f. mark_required (required e) 0 (fst p) f) (obj_pairs obj) found)
      else Inl WATCH_PROTOCOL_INVALID_JSON)"
proof (induction obj arbitrary: found)
  case (Obj_Pair k v rest)
  then show ?case by (simp only: collect_required.simps obj_complete.simps obj_pairs.simps
      fold_simps fst_conv)
qed simp_all

lemma bit_fold_mark:
  assumes "length slots \<le> 32"
  shows "bit (fold (\<lambda>p f. mark_required slots 0 (fst p) f) ps found) k \<longleftrightarrow>
     bit found k \<or> (k < length slots \<and> (\<exists>key \<in> fst ` set ps. slots ! k = Some key))"
  using assms by (induction ps arbitrary: found) (auto simp: bit_mark_required)

lemma missing_required_iff:
  "missing_required slots i found \<longleftrightarrow>
     (\<exists>j < length slots. slots ! j \<noteq> None \<and> \<not> bit found (i + j))"
proof (induction slots arbitrary: i)
  case Nil
  then show ?case by simp
next
  case (Cons slot slots)
  then show ?case by (simp add: Ex_less_Suc2)
qed

text \<open>The values an object binds to a key, in order.\<close>

definition members :: "string \<Rightarrow> json_obj \<Rightarrow> json_token list" where
  "members name obj = map snd (filter (\<lambda>(k, _). k = name) (obj_pairs obj))"

lemma members_simps [simp]:
  "members name Obj_Error = []" "members name Obj_End = []"
  "members name (Obj_Pair k v rest) = (if k = name then v # members name rest else members name rest)"
  by (simp_all add: members_def)

lemma members_nonempty: "members name obj \<noteq> [] \<longleftrightarrow> name \<in> fst ` set (obj_pairs obj)"
  by (force simp: members_def filter_empty_conv)

text \<open>
  \<open>validate_payload\<close> says OK exactly for a complete object that has every required field.
\<close>

definition required_present :: "message_type_entry \<Rightarrow> json_obj \<Rightarrow> bool" where
  "required_present e obj \<longleftrightarrow>
     list_all (\<lambda>slot. case slot of None \<Rightarrow> True | Some name \<Rightarrow> members name obj \<noteq> []) (required e)"

definition payload_ok :: "json_lib \<Rightarrow> string \<Rightarrow> message_type_entry \<Rightarrow> bool" where
  "payload_ok J text e \<longleftrightarrow>
     (\<exists>obj. json_obj_separate_parse_init J text = Some obj \<and> obj_complete obj \<and>
        required_present e obj)"

lemma validate_payload_cases:
  assumes slots: "length (required e) \<le> 32"
  shows "validate_payload J text e =
    (case json_obj_separate_parse_init J text of
       None \<Rightarrow> WATCH_PROTOCOL_INVALID_JSON
     | Some obj \<Rightarrow>
         if \<not> obj_complete obj then WATCH_PROTOCOL_INVALID_JSON
         else if payload_ok J text e then WATCH_PROTOCOL_OK
         else WATCH_PROTOCOL_MISSING_FIELD)"
proof -
  have "missing_required (required e) 0
        (fold (\<lambda>p f. mark_required (required e) 0 (fst p) f) (obj_pairs obj) 0)
      \<longleftrightarrow> \<not> required_present e obj"
    (is "?missing \<longleftrightarrow> ?absent") for obj
  proof -
    have "?missing \<longleftrightarrow> (\<exists>slot \<in> set (required e). \<exists>name. slot = Some name \<and> name \<notin> fst ` set (obj_pairs obj))"
      unfolding missing_required_iff bit_fold_mark [OF slots] Bex_def in_set_conv_nth
      by (auto simp: image_iff) (metis option.inject)+
    then show ?thesis
      by (auto simp: required_present_def list_all_iff members_nonempty [symmetric] split: option.splits)
  qed
  then show ?thesis
    by (simp add: validate_payload_def collect_required_iff payload_ok_def split: option.split)
qed

section \<open>The decoder's contract\<close>

text \<open>The value the last binding of a key gives, read by \<open>f\<close>, or \<open>z\<close> when there is none.\<close>

definition last_member :: "string \<Rightarrow> json_obj \<Rightarrow> 'a \<Rightarrow> (json_token \<Rightarrow> 'a) \<Rightarrow> 'a" where
  "last_member name obj z f =
     (if members name obj = [] then z else f (last (members name obj)))"

definition is_u32 :: "json_token \<Rightarrow> bool" where
  "is_u32 tok \<longleftrightarrow> tok_type tok = JSON_TOK_NUMBER \<and> all_digits (tok_text tok) \<and>
     decimal (tok_text tok) < 2 ^ 32"

definition u32_value :: "json_token \<Rightarrow> u32" where
  "u32_value tok = of_nat (decimal (tok_text tok))"

definition envelope_values_ok :: "json_obj \<Rightarrow> bool" where
  "envelope_values_ok obj \<longleftrightarrow>
     list_all is_u32 (members ''version'' obj) \<and> list_all is_u32 (members ''id'' obj) \<and>
     list_all is_u32 (members ''reply_to'' obj) \<and>
     list_all (\<lambda>tok. tok_type tok = JSON_TOK_OBJECT_START) (members ''payload'' obj)"

definition envelope_fields_present :: "json_obj \<Rightarrow> bool" where
  "envelope_fields_present obj \<longleftrightarrow>
     members ''version'' obj \<noteq> [] \<and> members ''type'' obj \<noteq> [] \<and>
     members ''id'' obj \<noteq> [] \<and> members ''payload'' obj \<noteq> []"

definition seen_bit :: "string \<Rightarrow> json_obj \<Rightarrow> nat \<Rightarrow> u32" where
  "seen_bit name obj i = (if members name obj = [] then 0 else BIT i)"

definition seen_mask :: "json_obj \<Rightarrow> u32" where
  "seen_mask obj = (seen_bit ''version'' obj 0 OR seen_bit ''type'' obj 1 OR
                    seen_bit ''id'' obj 2 OR seen_bit ''payload'' obj 3)"

definition absorb :: "json_obj \<Rightarrow> decode_state \<Rightarrow> decode_state" where
  "absorb obj d =
     \<lparr>dec_entry = last_member ''type'' obj (dec_entry d) find_type,
      dec_version = last_member ''version'' obj (dec_version d) u32_value,
      dec_fields = dec_fields d OR seen_mask obj,
      dec_message =
        \<lparr>msg_type = msg_type (dec_message d),
         msg_id = last_member ''id'' obj (msg_id (dec_message d)) u32_value,
         msg_reply_to = last_member ''reply_to'' obj (msg_reply_to (dec_message d)) u32_value,
         has_reply_to = (has_reply_to (dec_message d) \<or> members ''reply_to'' obj \<noteq> []),
         payload = last_member ''payload'' obj (payload (dec_message d)) tok_text\<rparr>\<rparr>"

lemma parse_u32_ok: "is_u32 tok \<Longrightarrow> parse_u32 tok = Inr (u32_value tok)"
  by (simp add: parse_u32_iff is_u32_def u32_value_def unat_of_nat)

lemma parse_u32_fails: "\<not> is_u32 tok \<Longrightarrow> \<exists>e. parse_u32 tok = Inl e"
  by (cases "parse_u32 tok") (auto simp: parse_u32_iff is_u32_def)

lemma seen_bit_Pair:
  "seen_bit n (Obj_Pair k v rest) i = (if k = n then BIT i OR seen_bit n rest i else seen_bit n rest i)"
  by (simp add: seen_bit_def)

lemma seen_mask_Pair:
  "seen_mask (Obj_Pair k v rest) =
     (if k = ''version'' then BIT 0 OR seen_mask rest
      else if k = ''type'' then BIT 1 OR seen_mask rest
      else if k = ''id'' then BIT 2 OR seen_mask rest
      else if k = ''payload'' then BIT 3 OR seen_mask rest
      else seen_mask rest)"
  by (simp add: seen_mask_def seen_bit_Pair or.assoc or.commute or.left_commute)

lemma absorb_Pair:
  "absorb (Obj_Pair k v rest) d = absorb rest
     (if k = ''version'' then d\<lparr>dec_version := u32_value v, dec_fields := dec_fields d OR BIT 0\<rparr>
      else if k = ''type'' then d\<lparr>dec_entry := find_type v, dec_fields := dec_fields d OR BIT 1\<rparr>
      else if k = ''id'' then d\<lparr>dec_message := (dec_message d)\<lparr>msg_id := u32_value v\<rparr>,
                                dec_fields := dec_fields d OR BIT 2\<rparr>
      else if k = ''reply_to'' then
        d\<lparr>dec_message := (dec_message d)\<lparr>msg_reply_to := u32_value v, has_reply_to := True\<rparr>\<rparr>
      else if k = ''payload'' then d\<lparr>dec_message := (dec_message d)\<lparr>payload := tok_text v\<rparr>,
                                     dec_fields := dec_fields d OR BIT 3\<rparr>
      else d)"
  by (simp add: absorb_def last_member_def seen_mask_Pair or.assoc)

lemma decode_loop_closed:
  "decode_loop obj d =
     (if obj_complete obj \<and> envelope_values_ok obj then Inr (absorb obj d)
      else Inl WATCH_PROTOCOL_INVALID_JSON)"
proof (induction obj arbitrary: d)
  case Obj_Error
  show ?case by simp
next
  case Obj_End
  show ?case by (simp add: envelope_values_ok_def absorb_def last_member_def seen_mask_def seen_bit_def)
next
  case (Obj_Pair k v rest)
  note number = parse_u32_ok [of v] parse_u32_fails [of v]
  consider "k = ''version''" | "k = ''type''" | "k = ''id''" | "k = ''reply_to''" | "k = ''payload''"
    | "k \<notin> {''version'', ''type'', ''id'', ''reply_to'', ''payload''}" by blast
  then show ?case
  proof cases
    case 1
    then show ?thesis using number
      by (cases "is_u32 v") (auto simp: Obj_Pair.IH absorb_Pair envelope_values_ok_def)
  next
    case 2
    then show ?thesis by (simp add: Obj_Pair.IH absorb_Pair envelope_values_ok_def)
  next
    case 3
    then show ?thesis using number
      by (cases "is_u32 v") (auto simp: Obj_Pair.IH absorb_Pair envelope_values_ok_def)
  next
    case 4
    then show ?thesis using number
      by (cases "is_u32 v") (auto simp: Obj_Pair.IH absorb_Pair envelope_values_ok_def)
  next
    case 5
    then show ?thesis
      by (cases "tok_type v = JSON_TOK_OBJECT_START")
         (auto simp: Obj_Pair.IH absorb_Pair envelope_values_ok_def)
  next
    case 6
    then show ?thesis by (simp add: Obj_Pair.IH absorb_Pair envelope_values_ok_def)
  qed
qed

lemma seen_all:
  "seen_mask obj = (BIT 0 OR BIT 1 OR BIT 2 OR BIT 3) \<longleftrightarrow> envelope_fields_present obj"
  by (simp add: seen_mask_def seen_bit_def envelope_fields_present_def BIT_def)

text \<open>The message the envelope describes.\<close>

definition envelope_message :: "json_obj \<Rightarrow> message_type_entry \<Rightarrow> watch_protocol_message" where
  "envelope_message obj e =
     \<lparr>msg_type = entry_type e,
      msg_id = last_member ''id'' obj 0 u32_value,
      msg_reply_to = last_member ''reply_to'' obj 0 u32_value,
      has_reply_to = (members ''reply_to'' obj \<noteq> []),
      payload = last_member ''payload'' obj [] tok_text\<rparr>"

text \<open>What a valid frame is, without loops: the conditions of \<open>docs/protocol.md\<close>.\<close>

definition envelope_ok :: "json_lib \<Rightarrow> string \<Rightarrow> watch_protocol_message \<Rightarrow> bool" where
  "envelope_ok J frame msg \<longleftrightarrow>
     0 < length frame \<and> length frame \<le> WATCH_PROTOCOL_MAX_FRAME_SIZE \<and>
     valid_utf8 (map u8_of_char frame) \<and>
     (\<exists>obj e. json_obj_separate_parse_init J frame = Some obj \<and> obj_complete obj \<and>
        envelope_values_ok obj \<and> envelope_fields_present obj \<and>
        u32_value (last (members ''version'' obj)) = 1 \<and>
        find_type (last (members ''type'' obj)) = Some e \<and>
        (entry_type e = WATCH_MESSAGE_COMMAND_RESULT \<longrightarrow> members ''reply_to'' obj \<noteq> []) \<and>
        payload_ok J (payload (envelope_message obj e)) e \<and>
        msg = envelope_message obj e)"

lemma find_type_slots: "find_type tok = Some e \<Longrightarrow> length (required e) = 5"
  using message_types_slots by (auto simp: list_all_iff dest: find_type_Some)

lemma decode_closed:
  "watch_protocol_decode J frame =
     (if length frame = 0 then Inl WATCH_PROTOCOL_INVALID_JSON
      else if length frame > WATCH_PROTOCOL_MAX_FRAME_SIZE then Inl WATCH_PROTOCOL_FRAME_TOO_LARGE
      else if \<not> valid_utf8 (map u8_of_char frame) then Inl WATCH_PROTOCOL_INVALID_UTF8
      else case json_obj_separate_parse_init J frame of
        None \<Rightarrow> Inl WATCH_PROTOCOL_INVALID_JSON
      | Some obj \<Rightarrow>
          if \<not> (obj_complete obj \<and> envelope_values_ok obj) then Inl WATCH_PROTOCOL_INVALID_JSON
          else if \<not> envelope_fields_present obj then Inl WATCH_PROTOCOL_MISSING_FIELD
          else if u32_value (last (members ''version'' obj)) \<noteq> 1
          then Inl WATCH_PROTOCOL_UNSUPPORTED_VERSION
          else (case find_type (last (members ''type'' obj)) of
              None \<Rightarrow> Inl WATCH_PROTOCOL_UNKNOWN_TYPE
            | Some e \<Rightarrow>
                if entry_type e = WATCH_MESSAGE_COMMAND_RESULT \<and> members ''reply_to'' obj = []
                then Inl WATCH_PROTOCOL_MISSING_FIELD
                else reported (validate_payload J (payload (envelope_message obj e)) e)
                       (envelope_message obj e)))"
proof -
  have start: "absorb obj \<lparr>dec_entry = None, dec_version = 0, dec_fields = 0, dec_message = zero_message\<rparr> =
      \<lparr>dec_entry = last_member ''type'' obj None find_type,
       dec_version = last_member ''version'' obj 0 u32_value,
       dec_fields = seen_mask obj,
       dec_message = \<lparr>msg_type = WATCH_MESSAGE_STATE_SET,
         msg_id = last_member ''id'' obj 0 u32_value,
         msg_reply_to = last_member ''reply_to'' obj 0 u32_value,
         has_reply_to = (members ''reply_to'' obj \<noteq> []),
         payload = last_member ''payload'' obj [] tok_text\<rparr>\<rparr>" for obj
    by (simp add: absorb_def zero_message_def)
  have last: "envelope_fields_present obj \<Longrightarrow>
      last_member ''type'' obj None find_type = find_type (last (members ''type'' obj)) \<and>
      last_member ''version'' obj 0 u32_value = u32_value (last (members ''version'' obj))" for obj
    by (simp add: envelope_fields_present_def last_member_def)
  show ?thesis
  proof (cases "json_obj_separate_parse_init J frame")
    case None
    then show ?thesis by (simp add: watch_protocol_decode_def)
  next
    case (Some obj)
    then show ?thesis
      unfolding watch_protocol_decode_def decode_loop_closed start
      by (cases "envelope_fields_present obj"; cases "find_type (last (members ''type'' obj))")
         (simp_all add: seen_all [unfolded One_nat_def] WATCH_PROTOCOL_VERSION_def
            envelope_message_def Let_def last cong: if_cong)
  qed
qed

text \<open>
  C5. Decoding succeeds with a message exactly when the frame is a valid envelope for it: a
  non-empty frame of at most 16384 bytes of well-formed UTF-8 that the JSON library accepts to
  its end, whose \<open>version\<close>, \<open>id\<close> and \<open>reply_to\<close> members are unsigned 32-bit decimals and
  whose \<open>payload\<close> is an object, with the four required members present, version 1, a
  registered type, a \<open>reply_to\<close> on every command result, and every payload field the type
  requires; the message carries the values of the last occurrence of each member.
\<close>

theorem decode_iff: "watch_protocol_decode J frame = Inr msg \<longleftrightarrow> envelope_ok J frame msg"
proof (cases "json_obj_separate_parse_init J frame")
  case None
  then show ?thesis by (simp add: decode_closed envelope_ok_def)
next
  case (Some obj)
  show ?thesis
  proof (cases "find_type (last (members ''type'' obj))")
    case None
    with Some show ?thesis by (simp add: decode_closed envelope_ok_def)
  next
    case (Some e)
    have ok: "reported (validate_payload J body e) m = Inr msg \<longleftrightarrow> payload_ok J body e \<and> msg = m"
      for body m
      using find_type_slots [OF Some]
      by (auto simp: validate_payload_cases payload_ok_def reported_def split: option.split)
    show ?thesis
      unfolding decode_closed envelope_ok_def
      using Some \<open>json_obj_separate_parse_init J frame = Some obj\<close>
      by (auto simp: ok)
  qed
qed

text \<open>
  The order in which the code reports what is wrong with a frame. A text the JSON library does not
  open counts as an object that breaks off at once; the checks behind the lookup of the type
  are about the entry it found.
\<close>

fun first_failing :: "('e \<times> bool) list \<Rightarrow> 'e option" where
  "first_failing [] = None"
| "first_failing ((e, ok) # checks) = (if ok then first_failing checks else Some e)"

definition opened_object :: "json_lib \<Rightarrow> string \<Rightarrow> json_obj" where
  "opened_object J s = (case json_obj_separate_parse_init J s of None \<Rightarrow> Obj_Error | Some obj \<Rightarrow> obj)"

definition decode_checks :: "json_lib \<Rightarrow> string \<Rightarrow> (watch_protocol_result \<times> bool) list" where
  "decode_checks J frame =
     (let obj = opened_object J frame;
          body = opened_object J (last_member ''payload'' obj [] tok_text);
          known = find_type (last (members ''type'' obj))
      in
     [(WATCH_PROTOCOL_INVALID_JSON, frame \<noteq> []),
      (WATCH_PROTOCOL_FRAME_TOO_LARGE, length frame \<le> WATCH_PROTOCOL_MAX_FRAME_SIZE),
      (WATCH_PROTOCOL_INVALID_UTF8, valid_utf8 (map u8_of_char frame)),
      (WATCH_PROTOCOL_INVALID_JSON, obj_complete obj \<and> envelope_values_ok obj),
      (WATCH_PROTOCOL_MISSING_FIELD, envelope_fields_present obj),
      (WATCH_PROTOCOL_UNSUPPORTED_VERSION, u32_value (last (members ''version'' obj)) = 1),
      (WATCH_PROTOCOL_UNKNOWN_TYPE, known \<noteq> None),
      (WATCH_PROTOCOL_MISSING_FIELD, (case known of None \<Rightarrow> False
         | Some e \<Rightarrow> entry_type e = WATCH_MESSAGE_COMMAND_RESULT \<longrightarrow> members ''reply_to'' obj \<noteq> [])),
      (WATCH_PROTOCOL_INVALID_JSON, obj_complete body),
      (WATCH_PROTOCOL_MISSING_FIELD, (case known of None \<Rightarrow> False | Some e \<Rightarrow> required_present e body))])"

text \<open>
  C22. The result code of a rejected frame names the first check that fails, in the order:
  emptiness, size, UTF-8, JSON structure and value types, the four envelope members, the
  version, the type, the \<open>reply_to\<close> of a command result, the payload's structure, and its
  required fields. A text the JSON library refuses to open, be it the frame or its payload, fails
  the check of the structure. A decode that fails no check succeeds with the envelope's message.
  This holds for every library and every frame.
\<close>

theorem decode_error_order:
  "(case first_failing (decode_checks J frame) of
      Some error \<Rightarrow> watch_protocol_decode J frame = Inl error
    | None \<Rightarrow> \<exists>e. find_type (last (members ''type'' (opened_object J frame))) = Some e \<and>
        watch_protocol_decode J frame = Inr (envelope_message (opened_object J frame) e))"
proof (cases "json_obj_separate_parse_init J frame")
  case None
  then show ?thesis
    by (simp add: decode_closed decode_checks_def opened_object_def Let_def not_less)
next
  case opened: (Some obj)
  then have obj: "opened_object J frame = obj" by (simp add: opened_object_def)
  show ?thesis
  proof (cases "find_type (last (members ''type'' obj))")
    case None
    with opened show ?thesis
      by (simp add: decode_closed decode_checks_def obj Let_def not_less)
  next
    case (Some e)
    then have slots: "length (required e) \<le> 32" by (simp add: find_type_slots)
    let ?text = "last_member ''payload'' obj [] tok_text"
    have valid: "validate_payload J ?text e =
        (if \<not> obj_complete (opened_object J ?text) then WATCH_PROTOCOL_INVALID_JSON
         else if required_present e (opened_object J ?text) then WATCH_PROTOCOL_OK
         else WATCH_PROTOCOL_MISSING_FIELD)"
      by (auto simp: validate_payload_cases [OF slots] payload_ok_def opened_object_def
          split: option.split)
    have "payload (envelope_message obj e) = ?text" by (simp add: envelope_message_def)
    then show ?thesis
      using opened Some
      by (simp add: decode_closed decode_checks_def obj valid Let_def not_less reported_def)
  qed
qed

text \<open>
  An envelope number is accepted exactly when its token is a non-empty string of decimal
  digits whose value fits 32 bits, and the value stored is that of the digits: the running
  64-bit accumulator never wraps, whatever the length of the text.
\<close>

theorem parse_u32_exact:
  "parse_u32 tok = Inr v \<longleftrightarrow>
     tok_type tok = JSON_TOK_NUMBER \<and> all_digits (tok_text tok) \<and> decimal (tok_text tok) = unat v"
  by (rule parse_u32_iff)

section \<open>A concrete library for evaluation\<close>

text \<open>
  A library that knows the texts of a finite list and fails on everything else. It is used to
  evaluate the codec at concrete frames.
\<close>

definition table_lib :: "(string \<times> json_obj) list \<Rightarrow> json_lib" where
  "table_lib objs = \<lparr>json_obj_separate_parse_init = map_of objs,
                     json_arr_separate_object_parse_init = (\<lambda>_. None)\<rparr>"

definition ping_obj :: json_obj where
  "ping_obj =
     Obj_Pair ''version'' \<lparr>tok_type = JSON_TOK_NUMBER, tok_text = ''1''\<rparr>
    (Obj_Pair ''type'' \<lparr>tok_type = JSON_TOK_STRING, tok_text = ''ping''\<rparr>
    (Obj_Pair ''id'' \<lparr>tok_type = JSON_TOK_NUMBER, tok_text = ''7''\<rparr>
    (Obj_Pair ''payload'' \<lparr>tok_type = JSON_TOK_OBJECT_START, tok_text = ''{n}''\<rparr> Obj_End)))"

definition nonce_obj :: json_obj where
  "nonce_obj = Obj_Pair ''nonce'' \<lparr>tok_type = JSON_TOK_NUMBER, tok_text = ''3''\<rparr> Obj_End"

definition ping_lib :: json_lib where
  "ping_lib = table_lib [(''ping'', ping_obj), (''{n}'', nonce_obj), (''pong'', Obj_Error)]"

definition ping_message :: watch_protocol_message where
  "ping_message = \<lparr>msg_type = WATCH_MESSAGE_PING, msg_id = 7, msg_reply_to = 0,
                   has_reply_to = False, payload = ''{n}''\<rparr>"

lemma ping_lib_simps:
  "json_obj_separate_parse_init ping_lib ''ping'' = Some ping_obj"
  "json_obj_separate_parse_init ping_lib ''{n}'' = Some nonce_obj"
  by (simp_all add: ping_lib_def table_lib_def)

lemma ping_envelope:
  "valid_utf8 (map u8_of_char ''ping'')" "envelope_values_ok ping_obj" "obj_complete ping_obj"
  "envelope_fields_present ping_obj" "u32_value (last (members ''version'' ping_obj)) = 1"
  "find_type (last (members ''type'' ping_obj)) = Some (entry ''ping'' WATCH_MESSAGE_PING [''nonce''])"
  "obj_complete nonce_obj"
  "required_present (entry ''ping'' WATCH_MESSAGE_PING [''nonce'']) nonce_obj"
  "envelope_message ping_obj (entry ''ping'' WATCH_MESSAGE_PING [''nonce'']) = ping_message"
proof -
  show "valid_utf8 (map u8_of_char ''ping'')" by code_simp
  show "envelope_values_ok ping_obj"
    by (simp add: ping_obj_def envelope_values_ok_def is_u32_def all_digits_def decimal_def)
       (simp add: digit_computes)
qed (simp_all add: ping_obj_def nonce_obj_def envelope_fields_present_def u32_value_def
       decimal_def digit_computes find_type_def message_types_def entry_def required_present_def
       numeral_eq_Suc envelope_message_def last_member_def ping_message_def)

lemma ping_decodes: "watch_protocol_decode ping_lib ''ping'' = Inr ping_message"
proof -
  have "validate_payload ping_lib (payload ping_message) (entry ''ping'' WATCH_MESSAGE_PING [''nonce'']) =
      WATCH_PROTOCOL_OK"
    using ping_envelope(7,8)
    by (simp add: validate_payload_cases payload_ok_def ping_lib_simps ping_message_def entry_def)
  then show ?thesis
    using ping_envelope
    by (simp add: decode_closed ping_lib_simps reported_def WATCH_PROTOCOL_MAX_FRAME_SIZE_def
        del: valid_utf8.simps list.map)
       (simp add: entry_def)
qed

text \<open>Three rejected frames: an unknown text, an object that breaks off, and no text at all.\<close>

theorem decode_error_order_witness:
  "watch_protocol_decode ping_lib ''nope'' = Inl WATCH_PROTOCOL_INVALID_JSON \<and>
   watch_protocol_decode ping_lib ''pong'' = Inl WATCH_PROTOCOL_INVALID_JSON \<and>
   watch_protocol_decode ping_lib [] = Inl WATCH_PROTOCOL_INVALID_JSON"
proof -
  have utf8: "valid_utf8 (map u8_of_char ''nope'')" "valid_utf8 (map u8_of_char ''pong'')"
    by code_simp+
  have obj: "opened_object ping_lib ''nope'' = Obj_Error" "opened_object ping_lib ''pong'' = Obj_Error"
    by (simp_all add: opened_object_def ping_lib_def table_lib_def)
  have "first_failing (decode_checks ping_lib frame) = Some WATCH_PROTOCOL_INVALID_JSON"
    if "frame \<in> {''nope'', ''pong'', []}" for frame
    using that utf8 obj
    by (auto simp: decode_checks_def Let_def WATCH_PROTOCOL_MAX_FRAME_SIZE_def
        simp del: valid_utf8.simps list.map)
  then show ?thesis
    using decode_error_order [of ping_lib "''nope''"] decode_error_order [of ping_lib "''pong''"]
      decode_error_order [of ping_lib "[]"]
    by simp
qed

end
