(* ===== verification/Frame_Decoder.thy ===== *)
theory Frame_Decoder
  imports Watch_Protocol
begin

text \<open>
  The frame decoder of \<open>watch/src/protocol/watch_protocol.c\<close>: bytes arrive from the socket
  in arbitrary chunks, a line feed ends a frame, a carriage return before it is dropped, and
  each frame is decoded and handed to the handler. The handler and its context are a state
  transformer on a type \<open>'s\<close>. The lemmas say that the chunking does not matter, that the
  buffer never overflows, and that the frames are delivered in order.
\<close>

section \<open>The decoder\<close>

text \<open>
  \<open>struct watch_frame_decoder\<close>: the characters \<open>bytes[0 .. length - 1]\<close>; what the array
  holds behind them is never read.
\<close>

record watch_frame_decoder =
  bytes :: string

definition empty_decoder :: watch_frame_decoder where
  "empty_decoder = \<lparr>bytes = []\<rparr>"

text \<open>
  What a push returns: OK, a code of the protocol (the decoder's own or that of a frame), or
  the handler's error.
\<close>

datatype push_result =
    Push_OK
  | Push_Protocol watch_protocol_result
  | Push_Handler errno

type_synonym 's message_handler = "watch_protocol_message \<Rightarrow> 's \<Rightarrow> (errno + unit) \<times> 's"

definition frame_text :: "string \<Rightarrow> string" where
  "frame_text bs = (if bs \<noteq> [] \<and> last bs = CHR 0x0D then butlast bs else bs)"

fun watch_frame_decoder_push ::
    "json_lib \<Rightarrow> 's message_handler \<Rightarrow> u8 list \<Rightarrow> watch_frame_decoder \<Rightarrow> 's
       \<Rightarrow> push_result \<times> watch_frame_decoder \<times> 's"
where
  "watch_frame_decoder_push J handler [] decoder context = (Push_OK, decoder, context)"
| "watch_frame_decoder_push J handler (b # rest) decoder context =
     (if b = 10 then
        (let frame = frame_text (bytes decoder) in
         if length frame > 0 then
           (case watch_protocol_decode J frame of
              Inl result \<Rightarrow> (Push_Protocol result, decoder\<lparr>bytes := []\<rparr>, context)
            | Inr message \<Rightarrow>
                (case handler message context of
                   (Inl result, context) \<Rightarrow> (Push_Handler result, decoder\<lparr>bytes := []\<rparr>, context)
                 | (Inr _, context) \<Rightarrow>
                     watch_frame_decoder_push J handler rest (decoder\<lparr>bytes := []\<rparr>) context))
         else watch_frame_decoder_push J handler rest (decoder\<lparr>bytes := []\<rparr>) context)
      else if length (bytes decoder) \<ge> WATCH_PROTOCOL_MAX_FRAME_SIZE then
        (Push_Protocol WATCH_PROTOCOL_FRAME_TOO_LARGE, decoder\<lparr>bytes := []\<rparr>, context)
      else watch_frame_decoder_push J handler rest
             (decoder\<lparr>bytes := bytes decoder @ [char_of_u8 b]\<rparr>) context)"

text \<open>A handler for evaluation: it collects the identifiers of the messages.\<close>

definition collect_ids :: "u32 list message_handler" where
  "collect_ids message ids = (Inr (), ids @ [msg_id message])"

section \<open>Chunked consumers\<close>

text \<open>
  The interface a socket reader needs from a consumer of a byte stream: an empty chunk changes
  nothing, and a chunk may be cut anywhere. \<open>feed\<close> is the reader: it hands over one chunk
  after the other until a result is not good.
\<close>

fun feed :: "('b list \<Rightarrow> 'd \<Rightarrow> 'r \<times> 'd) \<Rightarrow> 'r \<Rightarrow> 'b list list \<Rightarrow> 'd \<Rightarrow> 'r \<times> 'd" where
  "feed push good [] d = (good, d)"
| "feed push good (c # cs) d =
     (case push c d of (r, d') \<Rightarrow> if r = good then feed push good cs d' else (r, d'))"

locale chunked_consumer =
  fixes push :: "'b list \<Rightarrow> 'd \<Rightarrow> 'r \<times> 'd"
    and good :: 'r
  assumes push_Nil: "push [] d = (good, d)"
    and push_append: "push (xs @ ys) d =
      (case push xs d of (r, d') \<Rightarrow> if r = good then push ys d' else (r, d'))"
begin

lemma feed_concat: "feed push good chunks d = push (concat chunks) d"
  by (induction chunks arbitrary: d) (simp_all add: push_Nil push_append split: prod.split)

lemma feed_rechunk: "concat cs = concat cs' \<Longrightarrow> feed push good cs d = feed push good cs' d"
  by (simp add: feed_concat)

lemma push_bytewise: "push xs d = feed push good (map (\<lambda>x. [x]) xs) d"
  by (simp add: feed_concat)

end

definition decoder_consumer ::
    "json_lib \<Rightarrow> 's message_handler \<Rightarrow> u8 list \<Rightarrow> watch_frame_decoder \<times> 's
       \<Rightarrow> push_result \<times> watch_frame_decoder \<times> 's"
where
  "decoder_consumer J handler bs ds = watch_frame_decoder_push J handler bs (fst ds) (snd ds)"

lemma push_append:
  "watch_frame_decoder_push J h (xs @ ys) d s =
     (case watch_frame_decoder_push J h xs d s of
        (r, d', s') \<Rightarrow> if r = Push_OK then watch_frame_decoder_push J h ys d' s' else (r, d', s'))"
proof (induction xs arbitrary: d s)
  case Nil
  then show ?case by simp
next
  case (Cons b xs)
  then show ?case by (simp add: Let_def split: sum.split prod.split)
qed

interpretation decoder_stream: chunked_consumer "decoder_consumer J handler" Push_OK
  for J :: json_lib and handler :: "'s message_handler"
  by unfold_locales (auto simp: decoder_consumer_def push_append split: prod.split)

text \<open>
  C20. Chunking is invisible: reading the stream in any chunks gives the result, the buffered
  bytes and the handler's state of reading it at once, so two ways to cut the same bytes
  never differ.
\<close>

theorem push_chunking:
  "feed (decoder_consumer J handler) Push_OK chunks (d, s) =
     watch_frame_decoder_push J handler (concat chunks) d s"
  using decoder_stream.feed_concat [of J handler chunks "(d, s)"]
  by (simp add: decoder_consumer_def)

section \<open>Bounds\<close>

definition wf_decoder :: "watch_frame_decoder \<Rightarrow> bool" where
  "wf_decoder d \<longleftrightarrow> length (bytes d) \<le> WATCH_PROTOCOL_MAX_FRAME_SIZE"

lemma wf_empty_decoder [simp, wf_intros]: "wf_decoder empty_decoder"
  by (simp add: wf_decoder_def empty_decoder_def)

lemma wf_decoder_empty_bytes [simp]: "wf_decoder (d\<lparr>bytes := []\<rparr>)"
  by (simp add: wf_decoder_def)

lemma wf_push [wf_intros]:
  "wf_decoder d \<Longrightarrow> wf_decoder (fst (snd (watch_frame_decoder_push J h bs d s)))"
proof (induction bs arbitrary: d s)
  case Nil
  then show ?case by simp
next
  case (Cons b bs)
  have "\<not> WATCH_PROTOCOL_MAX_FRAME_SIZE \<le> length (bytes d) \<Longrightarrow>
      wf_decoder (d\<lparr>bytes := bytes d @ [char_of_u8 b]\<rparr>)"
    by (simp add: wf_decoder_def)
  with Cons.IH show ?case by (simp add: Let_def split: sum.split prod.split)
qed

lemma push_error_resets:
  "fst (watch_frame_decoder_push J h bs d s) \<noteq> Push_OK \<Longrightarrow>
     bytes (fst (snd (watch_frame_decoder_push J h bs d s))) = []"
  by (induction bs arbitrary: d s) (auto simp: Let_def split: sum.split prod.split)

text \<open>
  C21. The buffer of the decoder never holds more than 16384 bytes, so the write
  \<open>bytes[length++]\<close> stays inside the array of 16385, and after any error the buffer is empty,
  so nothing of a rejected frame leaks into the next one.
\<close>

theorem decoder_bounds:
  assumes "wf_decoder d"
  shows "(case watch_frame_decoder_push J handler bs d s of
            (r, d', _) \<Rightarrow> length (bytes d') \<le> 16384 \<and> (r = Push_OK \<or> bytes d' = []))"
  using wf_push [OF assms, of J handler bs s] push_error_resets [of J handler bs d s]
  by (cases "fst (watch_frame_decoder_push J handler bs d s) = Push_OK")
     (auto simp: wf_decoder_def WATCH_PROTOCOL_MAX_FRAME_SIZE_def split: prod.split)

theorem decoder_bounds_witness:
  "length (bytes (fst (snd (watch_frame_decoder_push ping_lib collect_ids
     [112] empty_decoder [])))) \<le> 16384"
  using decoder_bounds [OF wf_empty_decoder, of ping_lib collect_ids "[112]" "[]"]
  by (simp add: split_beta del: watch_frame_decoder_push.simps)

section \<open>Framing\<close>

lemma push_no_newline:
  "10 \<notin> set l \<Longrightarrow> length (bytes d) + length l \<le> WATCH_PROTOCOL_MAX_FRAME_SIZE \<Longrightarrow>
   watch_frame_decoder_push J h l d s = (Push_OK, d\<lparr>bytes := bytes d @ map char_of_u8 l\<rparr>, s)"
  by (induction l arbitrary: d) auto

lemma push_oversize:
  "10 \<notin> set l \<Longrightarrow> length (bytes d) + length l > WATCH_PROTOCOL_MAX_FRAME_SIZE \<Longrightarrow>
   wf_decoder d \<Longrightarrow>
   watch_frame_decoder_push J h (l @ rest) d s =
     (Push_Protocol WATCH_PROTOCOL_FRAME_TOO_LARGE, d\<lparr>bytes := []\<rparr>, s)"
  by (induction l arbitrary: d) (auto simp: wf_decoder_def)

text \<open>The carriage return counts against the limit although it is not part of the frame.\<close>

lemma crlf_full_frame_rejected:
  assumes "length l = 16384" "10 \<notin> set l"
  shows "watch_frame_decoder_push J h (l @ [13, 10]) empty_decoder s =
    (Push_Protocol WATCH_PROTOCOL_FRAME_TOO_LARGE, empty_decoder, s)"
  using push_oversize [of "l @ [13]" empty_decoder J h "[10]" s] assms
  by (simp add: WATCH_PROTOCOL_MAX_FRAME_SIZE_def empty_decoder_def wf_decoder_def)

text \<open>
  The specification works on whole lines: decode each line that is not blank, hand its
  message to the handler, and stop at the first failure.
\<close>

fun run_lines :: "json_lib \<Rightarrow> 's message_handler \<Rightarrow> u8 list list \<Rightarrow> 's \<Rightarrow> push_result \<times> 's" where
  "run_lines J handler [] s = (Push_OK, s)"
| "run_lines J handler (l # ls) s =
     (let frame = frame_text (map char_of_u8 l) in
      if frame = [] then run_lines J handler ls s
      else case watch_protocol_decode J frame of
        Inl result \<Rightarrow> (Push_Protocol result, s)
      | Inr message \<Rightarrow>
          (case handler message s of
             (Inl e, s) \<Rightarrow> (Push_Handler e, s)
           | (Inr _, s) \<Rightarrow> run_lines J handler ls s))"

definition line_ok :: "u8 list \<Rightarrow> bool" where
  "line_ok l \<longleftrightarrow> 10 \<notin> set l \<and> length l \<le> WATCH_PROTOCOL_MAX_FRAME_SIZE"

lemma push_line:
  assumes "line_ok l"
  shows "watch_frame_decoder_push J h (l @ 10 # rest) empty_decoder s =
     watch_frame_decoder_push J h (10 # rest) \<lparr>bytes = map char_of_u8 l\<rparr> s"
  using assms by (simp add: push_append push_no_newline line_ok_def empty_decoder_def)

lemma run_lines_refines:
  assumes "list_all line_ok ls" and "line_ok tail"
  shows "watch_frame_decoder_push J h (concat (map (\<lambda>l. l @ [10]) ls) @ tail) empty_decoder s =
     (case run_lines J h ls s of
        (r, s') \<Rightarrow> (r, \<lparr>bytes = (if r = Push_OK then map char_of_u8 tail else [])\<rparr>, s'))"
  using assms
proof (induction ls arbitrary: s)
  case Nil
  then show ?case by (simp add: push_no_newline line_ok_def empty_decoder_def)
next
  case (Cons l ls)
  have empty: "(\<lparr>bytes = b\<rparr> :: watch_frame_decoder)\<lparr>bytes := []\<rparr> = empty_decoder" for b
    by (simp add: empty_decoder_def)
  show ?case
    using Cons push_line [of l J h "concat (map (\<lambda>l. l @ [10]) ls) @ tail" s]
    by (simp add: empty Let_def split: sum.split prod.split)
       (auto simp: empty_decoder_def)
qed

text \<open>
  C6. The decoder refines a reader of whole lines: on any sequence of lines of at most 16384
  bytes followed by an unfinished one, the messages reach the handler exactly as when each
  line is decoded on its own in order, up to the first line that fails, and the bytes of the
  unfinished line are kept for the next push.
\<close>

theorem decoder_refines_lines:
  assumes "list_all line_ok ls" and "line_ok tail"
  shows "watch_frame_decoder_push J handler (concat (map (\<lambda>l. l @ [10]) ls) @ tail) empty_decoder s =
     (case run_lines J handler ls s of
        (r, s') \<Rightarrow> (r, \<lparr>bytes = (if r = Push_OK then map char_of_u8 tail else [])\<rparr>, s'))"
  by (rule run_lines_refines [OF assms])

theorem decoder_refines_lines_witness:
  "watch_frame_decoder_push ping_lib collect_ids
     [112, 105, 110, 103, 13, 10, 10, 112, 105, 110, 103, 10, 112, 111] empty_decoder [] =
   (Push_OK, \<lparr>bytes = ''po''\<rparr>, [7, 7])"
proof -
  let ?ping = "[112, 105, 110, 103] :: u8 list"
  have chars: "map char_of_u8 ?ping = ''ping''" "char_of_u8 13 = CHR 0x0D"
      "map char_of_u8 [112, 111] = ''po''"
    by code_simp+
  have "list_all line_ok [?ping @ [13], [], ?ping]" "line_ok [112, 111]"
    by (simp_all add: line_ok_def WATCH_PROTOCOL_MAX_FRAME_SIZE_def)
  then have "watch_frame_decoder_push ping_lib collect_ids
      (concat (map (\<lambda>l. l @ [10]) [?ping @ [13], [], ?ping]) @ [112, 111]) empty_decoder [] =
    (case run_lines ping_lib collect_ids [?ping @ [13], [], ?ping] [] of
       (r, s') \<Rightarrow> (r, \<lparr>bytes = (if r = Push_OK then map char_of_u8 [112, 111] else [])\<rparr>, s'))"
    by (rule decoder_refines_lines)
  moreover have "run_lines ping_lib collect_ids [?ping @ [13], [], ?ping] [] = (Push_OK, [7, 7])"
  proof -
    have "frame_text (map char_of_u8 (?ping @ [13])) = ''ping''" 
         "frame_text (map char_of_u8 ?ping) = ''ping''" "frame_text (map char_of_u8 []) = []"
      unfolding map_append chars by (simp_all add: frame_text_def chars)
    then show ?thesis
      by (simp only: run_lines.simps Let_def ping_decodes collect_ids_def) (simp add: ping_message_def)
  qed
  moreover have "concat (map (\<lambda>l. l @ [10]) [?ping @ [13], [], ?ping]) @ [112, 111] =
      [112, 105, 110, 103, 13, 10, 10, 112, 105, 110, 103, 10, 112, 111]"
    by simp
  ultimately show ?thesis by (simp only: chars) simp
qed

end
