(* ===== verification/Sync_Parse.thy ===== *)
theory Sync_Parse
  imports Watch_Protocol Watch_State
begin

text \<open>
  The parsing half of \<open>watch/src/state/watch_sync.c\<close>: 64-bit numbers, bounded strings, members
  of objects, and the four parts of a snapshot (weather, music, steps, notifications). Every
  parser returns an error or the new value of the structure it fills; what the code leaves
  half-written on an error is a local copy that its caller throws away. The lemmas give the
  exact set of texts each number parser accepts and show that every parser keeps the state
  well-formed.
\<close>

section \<open>Numbers\<close>

text \<open>The digit is a \<open>uint8_t\<close>, which the arithmetic promotes; the bound never underflows.\<close>

fun parse_u64_loop :: "string \<Rightarrow> u64 \<Rightarrow> errno + u64" where
  "parse_u64_loop [] result = Inr result"
| "parse_u64_loop (c # cursor) result =
     (if not_digit c then Inl EINVAL
      else let digit = of_nat (digit_value c) in
        if result > (- 1 - digit) div 10 then Inl ERANGE
        else parse_u64_loop cursor (result * 10 + digit))"

definition parse_u64 :: "json_token \<Rightarrow> errno + u64" where
  "parse_u64 token =
     (if tok_type token \<noteq> JSON_TOK_NUMBER \<or> tok_text token = [] then Inl EINVAL
      else parse_u64_loop (tok_text token) 0)"

definition INT64_MAX :: u64 where
  "INT64_MAX = 0x7FFFFFFFFFFFFFFF"

fun parse_i64_loop :: "string \<Rightarrow> u64 \<Rightarrow> errno + u64" where
  "parse_i64_loop [] magnitude = Inr magnitude"
| "parse_i64_loop (c # cursor) magnitude =
     (if not_digit c then Inl EINVAL
      else let digit = of_nat (digit_value c) in
        if magnitude > (INT64_MAX - digit) div 10 then Inl ERANGE
        else parse_i64_loop cursor (magnitude * 10 + digit))"

definition parse_i64 :: "json_token \<Rightarrow> errno + i64" where
  "parse_i64 token =
     (if tok_type token \<noteq> JSON_TOK_NUMBER \<or> tok_text token = [] then Inl EINVAL
      else
        let negative = (hd (tok_text token) = CHR ''-'');
            cursor = (if negative then tl (tok_text token) else tok_text token)
        in if negative \<and> cursor = [] then Inl EINVAL
           else case parse_i64_loop cursor 0 of
             Inl e \<Rightarrow> Inl e
           | Inr magnitude \<Rightarrow> Inr (if negative then - magnitude else magnitude))"

section \<open>Strings and members\<close>

definition copy_string :: "json_token \<Rightarrow> string \<Rightarrow> errno + string" where
  "copy_string token destination =
     (if tok_type token \<noteq> JSON_TOK_STRING \<or> length destination = 0 then Inl EINVAL
      else
        let n = length (tok_text token) in
        if n \<ge> length destination \<or> CHR 0x5C \<in> set (tok_text token) then Inl ENOSPC
        else Inr ((memcpy destination (tok_text token) n)[n := NUL]))"

fun find_member_loop :: "json_obj \<Rightarrow> string \<Rightarrow> errno + json_token" where
  "find_member_loop Obj_Error name = Inl EINVAL"
| "find_member_loop Obj_End name = Inl ENOENT"
| "find_member_loop (Obj_Pair key value object) name =
     (if span_equal key name then Inr value else find_member_loop object name)"

definition find_member :: "json_lib \<Rightarrow> string \<Rightarrow> string \<Rightarrow> errno + json_token" where
  "find_member J object_text name =
     (case json_obj_separate_parse_init J object_text of
        None \<Rightarrow> Inl EINVAL
      | Some object \<Rightarrow> find_member_loop object name)"

section \<open>Notifications\<close>

definition copy_optional :: "string \<Rightarrow> string option \<Rightarrow> string" where
  "copy_optional destination source =
     (case source of None \<Rightarrow> destination | Some s \<Rightarrow> strncpy_terminated destination s)"

definition store_notification ::
    "notification_json \<Rightarrow> watch_notification_list \<Rightarrow> watch_notification_list" where
  "store_notification item ns =
     (if unat (stored_count ns) < WATCH_NOTIFICATION_CAPACITY then
        (let slot = unat (stored_count ns);
             destination = entries ns ! slot
         in ns\<lparr>entries := (entries ns)[slot := destination
                 \<lparr>title := copy_optional (title destination) (json_title item),
                  body := copy_optional (body destination) (json_body item)\<rparr>],
               stored_count := stored_count ns + 1\<rparr>)
      else ns)"

definition count_notification :: "watch_notification_list \<Rightarrow> watch_notification_list" where
  "count_notification ns =
     (if total_count ns < 0xFFFF then ns\<lparr>total_count := total_count ns + 1\<rparr> else ns)"

fun parse_notifications_loop ::
    "notification_json json_arr \<Rightarrow> watch_notification_list \<Rightarrow> errno + watch_notification_list" where
  "parse_notifications_loop Arr_Error ns = Inl EINVAL"
| "parse_notifications_loop Arr_End ns = Inr ns"
| "parse_notifications_loop (Arr_Object item array) ns =
     parse_notifications_loop array (count_notification (store_notification item ns))"

definition parse_notifications :: "json_lib \<Rightarrow> json_token \<Rightarrow> errno + watch_notification_list" where
  "parse_notifications J token =
     (if tok_type token \<noteq> JSON_TOK_ARRAY_START then Inl EINVAL
      else case json_arr_separate_object_parse_init J (tok_text token) of
        None \<Rightarrow> Inl EINVAL
      | Some array \<Rightarrow> parse_notifications_loop array zero_notification_list)"

section \<open>Weather, music and the snapshot\<close>

definition i16_range :: "i64 \<Rightarrow> bool" where
  "i16_range v \<longleftrightarrow> \<not> (sint v < - 32768 \<or> sint v > 32767)"

definition parse_temperature :: "json_token \<Rightarrow> errno + i16" where
  "parse_temperature token =
     (case parse_i64 token of
        Inl _ \<Rightarrow> Inl EINVAL
      | Inr temperature \<Rightarrow> if i16_range temperature then Inr (ucast temperature) else Inl EINVAL)"

definition parse_weather :: "json_lib \<Rightarrow> json_token \<Rightarrow> watch_state \<Rightarrow> errno + watch_state" where
  "parse_weather J token candidate =
     (if tok_type token \<noteq> JSON_TOK_OBJECT_START then Inl EINVAL
      else
        case (case find_member J (tok_text token) ''temperature'' of
                Inl _ \<Rightarrow> Inr candidate
              | Inr value \<Rightarrow>
                  (case parse_temperature value of
                     Inl e \<Rightarrow> Inl e
                   | Inr t \<Rightarrow> Inr (candidate\<lparr>temperature_c := t\<rparr>))) of
          Inl e \<Rightarrow> Inl e
        | Inr candidate \<Rightarrow>
            (case find_member J (tok_text token) ''condition'' of
               Inl _ \<Rightarrow> Inr candidate
             | Inr value \<Rightarrow>
                 (case copy_string value (weather_condition candidate) of
                    Inl _ \<Rightarrow> Inl EINVAL
                  | Inr s \<Rightarrow> Inr (candidate\<lparr>weather_condition := s\<rparr>))))"

definition parse_flag :: "json_token \<Rightarrow> errno + bool" where
  "parse_flag token =
     (if tok_type token = JSON_TOK_TRUE then Inr True
      else if tok_type token = JSON_TOK_FALSE then Inr False
      else Inl EINVAL)"

definition parse_music :: "json_lib \<Rightarrow> json_token \<Rightarrow> watch_state \<Rightarrow> errno + watch_state" where
  "parse_music J token candidate =
     (if tok_type token \<noteq> JSON_TOK_OBJECT_START then Inl EINVAL
      else
        case (case find_member J (tok_text token) ''title'' of
                Inl _ \<Rightarrow> Inr candidate
              | Inr value \<Rightarrow>
                  (case copy_string value (music_title candidate) of
                     Inl _ \<Rightarrow> Inl EINVAL
                   | Inr s \<Rightarrow> Inr (candidate\<lparr>music_title := s\<rparr>))) of
          Inl e \<Rightarrow> Inl e
        | Inr candidate \<Rightarrow>
            (case find_member J (tok_text token) ''playing'' of
               Inl _ \<Rightarrow> Inr candidate
             | Inr value \<Rightarrow>
                 (case parse_flag value of
                    Inl e \<Rightarrow> Inl e
                  | Inr playing \<Rightarrow> Inr (candidate\<lparr>music_playing := playing\<rparr>))))"

definition parse_steps :: "json_token \<Rightarrow> errno + u32" where
  "parse_steps token =
     (case parse_u64 token of
        Inl _ \<Rightarrow> Inl EINVAL
      | Inr n \<Rightarrow> if n > 0xFFFFFFFF then Inl EINVAL else Inr (ucast n))"

fun parse_snapshot_loop :: "json_lib \<Rightarrow> json_obj \<Rightarrow> watch_state \<Rightarrow> errno + watch_state" where
  "parse_snapshot_loop J Obj_Error candidate = Inl EINVAL"
| "parse_snapshot_loop J Obj_End candidate = Inr candidate"
| "parse_snapshot_loop J (Obj_Pair key value object) candidate =
     (if span_equal key ''weather'' then
        (case parse_weather J value candidate of
           Inl _ \<Rightarrow> Inl EINVAL
         | Inr candidate \<Rightarrow> parse_snapshot_loop J object candidate)
      else if span_equal key ''music'' then
        (case parse_music J value candidate of
           Inl _ \<Rightarrow> Inl EINVAL
         | Inr candidate \<Rightarrow> parse_snapshot_loop J object candidate)
      else if span_equal key ''steps'' then
        (case parse_steps value of
           Inl _ \<Rightarrow> Inl EINVAL
         | Inr n \<Rightarrow> parse_snapshot_loop J object (candidate\<lparr>steps := n\<rparr>))
      else if span_equal key ''notifications'' then
        (case parse_notifications J value of
           Inl _ \<Rightarrow> Inl EINVAL
         | Inr ns \<Rightarrow> parse_snapshot_loop J object (candidate\<lparr>notifications := ns\<rparr>))
      else parse_snapshot_loop J object candidate)"

definition parse_snapshot ::
    "json_lib \<Rightarrow> watch_protocol_message \<Rightarrow> watch_state \<Rightarrow> errno + watch_state \<times> u64" where
  "parse_snapshot J message state =
     (case find_member J (payload message) ''revision'' of
        Inl _ \<Rightarrow> Inl EINVAL
      | Inr revision_token \<Rightarrow>
          (case parse_u64 revision_token of
             Inl _ \<Rightarrow> Inl EINVAL
           | Inr revision \<Rightarrow>
               (case find_member J (payload message) ''state'' of
                  Inl _ \<Rightarrow> Inl EINVAL
                | Inr state_token \<Rightarrow>
                    if tok_type state_token \<noteq> JSON_TOK_OBJECT_START then Inl EINVAL
                    else case json_obj_separate_parse_init J (tok_text state_token) of
                      None \<Rightarrow> Inl EINVAL
                    | Some object \<Rightarrow>
                        (case parse_snapshot_loop J object (watch_state_reset_host_owned state) of
                           Inl e \<Rightarrow> Inl e
                         | Inr candidate \<Rightarrow> Inr (candidate, revision)))))"

section \<open>Exactness of the number parsers\<close>

text \<open>
  The overflow test both loops make before \<open>result * 10 + digit\<close>, for any limit \<open>m\<close>: it
  fails exactly when the true value exceeds the limit, and otherwise the word arithmetic is
  exact.
\<close>

lemma checked_step:
  fixes r m :: u64
  assumes "d < 10" and "9 \<le> unat m"
  shows "r > (m - of_nat d) div 10 \<longleftrightarrow> unat m < unat r * 10 + d"
    and "\<not> unat m < unat r * 10 + d \<Longrightarrow> unat (r * 10 + of_nat d) = unat r * 10 + d"
proof -
  have small: "unat (of_nat d :: u64) = d"
    using assms(1) by (simp add: unat_of_nat)
  have "unat (m - of_nat d) = unat m - d"
    using assms small by (simp add: unat_sub_if')
  then have quot: "unat ((m - of_nat d) div 10) = (unat m - d) div 10"
    by (simp add: unat_div)
  have "(unat m - d) div 10 < unat r \<longleftrightarrow> unat m < unat r * 10 + d"
    using assms by linarith
  then show "r > (m - of_nat d) div 10 \<longleftrightarrow> unat m < unat r * 10 + d"
    by (simp add: word_less_nat_alt quot)
next
  assume "\<not> unat m < unat r * 10 + d"
  then have "unat r * 10 + d < 2 ^ 64"
    using unsigned_less [of m, where 'a = nat] by simp
  then show "unat (r * 10 + of_nat d) = unat r * 10 + d"
    using assms(1) by (simp add: unat_word_ariths unat_of_nat)
qed

lemma decimal_from_exceeds: "m < acc \<Longrightarrow> m < decimal_from acc s"
  using decimal_from_mono [of acc s] by simp

lemma parse_u64_loop_iff:
  "parse_u64_loop s result = Inr v \<longleftrightarrow>
     list_all (\<lambda>c. \<not> not_digit c) s \<and> unat v = decimal_from (unat result) s"
proof (induction s arbitrary: result)
  case Nil
  then show ?case by (auto simp: word_unat_eq_iff)
next
  case (Cons c s)
  note step = checked_step [OF digit_value_less, of c "- 1" result]
  have top: "unat (- 1 :: u64) = 2 ^ 64 - 1" "unat v < 2 ^ 64"
    using unsigned_less [of v, where 'a = nat] by (simp_all add: unsigned_minus_1_eq_mask mask_eq_exp_minus_1)
  show ?case
  proof (cases "not_digit c \<or> unat (- 1 :: u64) < unat result * 10 + digit_value c")
    case True
    then show ?thesis
      using step top decimal_from_exceeds [of "unat (- 1 :: u64)" "unat result * 10 + digit_value c" s]
      by (auto simp: Let_def)
  next
    case False
    then show ?thesis using step top by (simp add: Cons.IH Let_def)
  qed
qed

lemma parse_u64_iff:
  "parse_u64 tok = Inr v \<longleftrightarrow>
     tok_type tok = JSON_TOK_NUMBER \<and> all_digits (tok_text tok) \<and> decimal (tok_text tok) = unat v"
  by (auto simp: parse_u64_def parse_u64_loop_iff all_digits_def decimal_def)

lemma parse_i64_loop_iff:
  assumes "unat magnitude < 2 ^ 63"
  shows "parse_i64_loop s magnitude = Inr v \<longleftrightarrow>
     list_all (\<lambda>c. \<not> not_digit c) s \<and> unat v = decimal_from (unat magnitude) s \<and> unat v < 2 ^ 63"
  using assms
proof (induction s arbitrary: magnitude)
  case Nil
  then show ?case by (auto simp: word_unat_eq_iff)
next
  case (Cons c s)
  note step = checked_step [OF digit_value_less, of c INT64_MAX magnitude]
  have top: "unat INT64_MAX = 2 ^ 63 - 1"
    by (simp add: INT64_MAX_def)
  show ?case
  proof (cases "not_digit c \<or> unat INT64_MAX < unat magnitude * 10 + digit_value c")
    case True
    then show ?thesis
      using step top decimal_from_exceeds [of "unat INT64_MAX" "unat magnitude * 10 + digit_value c" s]
      by (auto simp: Let_def)
  next
    case False
    then show ?thesis using step top Cons.IH by (simp add: Let_def)
  qed
qed

lemma sint_of_int_range: "- (2 ^ 63) \<le> x \<Longrightarrow> x < 2 ^ 63 \<Longrightarrow> sint (word_of_int x :: i64) = x"
  by (simp add: int_word_sint)

lemma sint_small_word:
  assumes "unat (m :: i64) < 2 ^ 63"
  shows "sint m = int (unat m)" and "sint (- m) = - int (unat m)"
proof -
  obtain n where n: "unat m = n" "n < 2 ^ 63" using assms by blast
  then have m: "m = word_of_int (int n)" by (metis word_of_int_uint uint_nat)
  have range: "int n < 2 ^ 63" using n(2) by simp
  show "sint m = int (unat m)"
    unfolding n(1) unfolding m by (rule sint_of_int_range) (use range in simp_all)
  have neg: "- m = word_of_int (- int n)" by (simp add: m)
  show "sint (- m) = - int (unat m)"
    unfolding n(1) unfolding neg by (rule sint_of_int_range) (use range in simp_all)
qed

text \<open>The texts \<open>parse_i64\<close> accepts, with the value each denotes.\<close>

definition signed_decimal :: "string \<Rightarrow> int option" where
  "signed_decimal s =
     (let negative = (s \<noteq> [] \<and> hd s = CHR ''-''); ds = (if negative then tl s else s) in
      if all_digits ds \<and> decimal ds < 2 ^ 63
      then Some (if negative then - int (decimal ds) else int (decimal ds)) else None)"

lemma parse_i64_iff:
  "parse_i64 tok = Inr v \<longleftrightarrow>
     tok_type tok = JSON_TOK_NUMBER \<and> signed_decimal (tok_text tok) = Some (sint v)"
proof -
  have loop: "parse_i64_loop ds 0 = Inr m \<longleftrightarrow>
      list_all (\<lambda>c. \<not> not_digit c) ds \<and> decimal ds < 2 ^ 63 \<and> unat m = decimal ds" for ds m
    using parse_i64_loop_iff [of 0 ds m] by (auto simp: decimal_def)
  have exact: "(\<exists>m. parse_i64_loop ds 0 = Inr m \<and> v = (if neg then - m else m)) \<longleftrightarrow>
      list_all (\<lambda>c. \<not> not_digit c) ds \<and> decimal ds < 2 ^ 63 \<and>
      sint v = (if neg then - int (decimal ds) else int (decimal ds))" for ds neg
  proof
    assume "\<exists>m. parse_i64_loop ds 0 = Inr m \<and> v = (if neg then - m else m)"
    then show "list_all (\<lambda>c. \<not> not_digit c) ds \<and> decimal ds < 2 ^ 63 \<and>
      sint v = (if neg then - int (decimal ds) else int (decimal ds))"
      by (auto simp: loop sint_small_word split: if_splits)
  next
    assume asm: "list_all (\<lambda>c. \<not> not_digit c) ds \<and> decimal ds < 2 ^ 63 \<and>
      sint v = (if neg then - int (decimal ds) else int (decimal ds))"
    define m :: u64 where "m = of_nat (decimal ds)"
    have m: "unat m = decimal ds" using asm by (simp add: m_def unat_of_nat)
    then have "sint v = sint (if neg then - m else m)"
      using asm by (simp add: sint_small_word)
    then have "(word_of_int (sint v) :: i64) = word_of_int (sint (if neg then - m else m))"
      by (rule arg_cong)
    then have "v = (if neg then - m else m)" by (simp only: of_int_sint scast_id)
    then show "\<exists>m. parse_i64_loop ds 0 = Inr m \<and> v = (if neg then - m else m)"
      using asm m by (auto simp: loop)
  qed
  have minus: "not_digit CHR ''-''" by code_simp
  show ?thesis
  proof (cases "tok_text tok")
    case Nil
    then show ?thesis by (simp add: parse_i64_def signed_decimal_def all_digits_def)
  next
    case (Cons c s)
    show ?thesis
    proof (cases "c = CHR ''-''")
      case True
      with Cons exact [of s True] show ?thesis
        by (cases "s = []")
           (auto simp: parse_i64_def signed_decimal_def all_digits_def case_result_iff
              simp del: parse_i64_loop.simps)
    next
      case False
      with Cons exact [of "c # s" False] show ?thesis
        by (auto simp: parse_i64_def signed_decimal_def all_digits_def case_result_iff Let_def
              simp del: parse_i64_loop.simps list.pred_inject)
    qed
  qed
qed

text \<open>
  C26. The 64-bit number parsers of the synchroniser are exact. \<open>parse_u64\<close> accepts precisely
  the non-empty digit strings whose value fits 64 bits and \<open>parse_i64\<close> precisely those, with
  an optional minus sign, whose magnitude is at most \<open>2 ^ 63 - 1\<close>; both store the value the
  text denotes, and no accumulation wraps before the range check sees it.
\<close>

theorem numbers_exact:
  "(parse_u64 tok = Inr u \<longleftrightarrow>
      tok_type tok = JSON_TOK_NUMBER \<and> all_digits (tok_text tok) \<and> decimal (tok_text tok) = unat u) \<and>
   (parse_i64 tok = Inr v \<longleftrightarrow>
      tok_type tok = JSON_TOK_NUMBER \<and> signed_decimal (tok_text tok) = Some (sint v))"
  by (simp only: parse_u64_iff parse_i64_iff)

section \<open>Well-formedness\<close>

lemma copy_string_spec:
  assumes "copy_string tok dst = Inr s"
  shows "length s = length dst" "cstr s = cstr (tok_text tok)" "NUL \<in> set s"
    "length (tok_text tok) < length dst"
proof -
  from assms have fits: "length (tok_text tok) < length dst"
    and s: "s = (memcpy dst (tok_text tok) (length (tok_text tok)))[length (tok_text tok) := NUL]"
    by (auto simp: copy_string_def Let_def split: if_splits)
  obtain c rest where "drop (length (tok_text tok)) dst = c # rest"
    using fits by (cases "drop (length (tok_text tok)) dst") auto
  then have "s = tok_text tok @ NUL # rest"
    by (simp add: s memcpy_def list_update_append)
  then show "cstr s = cstr (tok_text tok)" "NUL \<in> set s" by (simp_all add: cstr_append)
  show "length s = length dst" using fits by (simp add: s memcpy_def)
  show "length (tok_text tok) < length dst" by (rule fits)
qed

lemma copy_string_wf [wf_intros]:
  "copy_string tok dst = Inr s \<Longrightarrow> cstring_array n dst \<Longrightarrow> cstring_array n s"
  using copy_string_spec [of tok dst s] by (auto simp: cstring_array_def)

lemma copy_optional_wf [wf_intros]:
  "cstring_array n dst \<Longrightarrow> 0 < n \<Longrightarrow> cstring_array n (copy_optional dst src)"
  by (auto simp: copy_optional_def intro: cstring_array_strncpy_terminated split: option.split)

text \<open>The list while it is filled: the cursor is still at 0.\<close>

lemma store_notification_wf:
  assumes "wf_notification_list ns" "active_index ns = 0"
  shows "wf_notification_list (store_notification item ns) \<and>
         active_index (store_notification item ns) = 0"
proof (cases "unat (stored_count ns) < WATCH_NOTIFICATION_CAPACITY")
  case True
  from assms True have "wf_notification (entries ns ! unat (stored_count ns))"
    by (auto simp: wf_notification_list_def list_all_iff)
  then have "wf_notification ((entries ns ! unat (stored_count ns))
      \<lparr>title := copy_optional (title (entries ns ! unat (stored_count ns))) (json_title item),
       body := copy_optional (body (entries ns ! unat (stored_count ns))) (json_body item)\<rparr>)"
    by (simp add: wf_notification_def copy_optional_wf)
  moreover have "unat (stored_count ns + 1) = Suc (unat (stored_count ns))"
    by (rule unat_u8_Suc [of _ 6]) (use True in \<open>simp add: WATCH_NOTIFICATION_CAPACITY_def\<close>)
  ultimately show ?thesis
    using assms True
    by (auto simp: store_notification_def Let_def wf_notification_list_def list_all_iff
        cursor_ok_unat dest!: set_update_subset_insert [THEN subsetD])
next
  case False
  with assms show ?thesis by (simp add: store_notification_def)
qed

lemma count_notification_wf:
  "wf_notification_list ns \<Longrightarrow> wf_notification_list (count_notification ns)"
  "active_index (count_notification ns) = active_index ns"
  by (simp_all add: count_notification_def wf_notification_list_def)

lemma parse_notifications_loop_wf:
  "parse_notifications_loop arr ns = Inr ns' \<Longrightarrow> wf_notification_list ns \<Longrightarrow> active_index ns = 0 \<Longrightarrow>
     wf_notification_list ns' \<and> active_index ns' = 0"
proof (induction arr arbitrary: ns)
  case (Arr_Object item arr)
  then show ?case using store_notification_wf [of ns item] by (simp add: count_notification_wf)
qed simp_all

lemma parse_notifications_wf:
  assumes "parse_notifications J tok = Inr ns"
  shows "wf_notification_list ns \<and> active_index ns = 0"
proof -
  have "active_index zero_notification_list = 0" by (simp add: zero_notification_list_def)
  then show ?thesis
    using assms parse_notifications_loop_wf [of _ zero_notification_list ns]
    by (auto simp: parse_notifications_def split: if_splits option.splits)
qed

lemma wf_parse_weather [wf_intros]:
  "parse_weather J tok s = Inr s' \<Longrightarrow> wf_state s \<Longrightarrow> wf_state s'"
  by (auto simp: parse_weather_def wf_state_def intro: copy_string_wf
      split: if_splits sum.splits)

lemma wf_parse_music [wf_intros]:
  "parse_music J tok s = Inr s' \<Longrightarrow> wf_state s \<Longrightarrow> wf_state s'"
  by (auto simp: parse_music_def wf_state_def intro: copy_string_wf
      split: if_splits sum.splits)

lemma wf_state_updates [wf_intros]:
  "wf_state s \<Longrightarrow> wf_state (s\<lparr>steps := n\<rparr>)"
  "wf_state s \<Longrightarrow> wf_state (s\<lparr>temperature_c := t\<rparr>)"
  "wf_state s \<Longrightarrow> wf_state (s\<lparr>music_playing := b\<rparr>)"
  "wf_state s \<Longrightarrow> wf_notification_list ns \<Longrightarrow> wf_state (s\<lparr>notifications := ns\<rparr>)"
  by (simp_all add: wf_state_def)

lemma wf_parse_snapshot_loop:
  "parse_snapshot_loop J obj s = Inr s' \<Longrightarrow> wf_state s \<Longrightarrow> wf_state s'"
proof (induction obj arbitrary: s)
  case (Obj_Pair k v rest)
  from Obj_Pair.prems show ?case
    by (auto intro: Obj_Pair.IH wf_parse_weather wf_parse_music wf_state_updates
        dest: parse_notifications_wf split: if_splits sum.splits)
qed simp_all

lemma wf_parse_snapshot:
  "parse_snapshot J m s = Inr (s', r) \<Longrightarrow> wf_state s \<Longrightarrow> wf_state s'"
  by (auto simp: parse_snapshot_def intro: wf_parse_snapshot_loop wf_state_reset
      split: if_splits sum.splits option.splits)

subsection \<open>What a snapshot leaves alone\<close>

text \<open>
  The part of the state the watch owns: the screen, the connection, the battery and the clock.
\<close>

definition watch_owned ::
    "watch_state \<Rightarrow> watch_screen \<times> watch_connection_state \<times> u8 \<times> string \<times> string \<times> string" where
  "watch_owned s = (active_screen s, connection s, battery_percent s, time_text s, day_text s, date_text s)"

lemma watch_owned_updates [simp]:
  "watch_owned (s\<lparr>steps := n\<rparr>) = watch_owned s"
  "watch_owned (s\<lparr>temperature_c := t\<rparr>) = watch_owned s"
  "watch_owned (s\<lparr>weather_condition := w\<rparr>) = watch_owned s"
  "watch_owned (s\<lparr>music_title := w\<rparr>) = watch_owned s"
  "watch_owned (s\<lparr>music_playing := b\<rparr>) = watch_owned s"
  "watch_owned (s\<lparr>notifications := ns\<rparr>) = watch_owned s"
  "watch_owned (watch_state_reset_host_owned s) = watch_owned s"
  by (simp_all add: watch_owned_def watch_state_reset_host_owned_def)

lemma watch_owned_weather: "parse_weather J tok s = Inr s' \<Longrightarrow> watch_owned s' = watch_owned s"
  by (auto simp: parse_weather_def split: if_splits sum.splits)

lemma watch_owned_music: "parse_music J tok s = Inr s' \<Longrightarrow> watch_owned s' = watch_owned s"
  by (auto simp: parse_music_def split: if_splits sum.splits)

lemma watch_owned_snapshot_loop:
  "parse_snapshot_loop J obj s = Inr s' \<Longrightarrow> watch_owned s' = watch_owned s"
proof (induction obj arbitrary: s)
  case (Obj_Pair k v rest)
  from Obj_Pair.prems show ?case
    by (auto dest!: Obj_Pair.IH watch_owned_weather watch_owned_music split: if_splits sum.splits)
qed simp_all

lemma watch_owned_snapshot:
  "parse_snapshot J m s = Inr (s', r) \<Longrightarrow> watch_owned s' = watch_owned s"
  by (auto simp: parse_snapshot_def dest: watch_owned_snapshot_loop
      split: if_splits sum.splits option.splits)

end
