(* ===== verification/Watch_Sync.thy ===== *)
theory Watch_Sync
  imports Sync_Parse
begin

text \<open>
  The synchroniser (\<open>watch/src/state/watch_sync.h\<close> and \<open>watch_sync.c\<close>): the host's state
  reaches the watch as one snapshot and then as mutations with consecutive revisions. A gap
  sends the watch back to waiting for a snapshot while it buffers up to sixteen mutations,
  which are replayed behind the snapshot. The theory proves the buffer's invariant, the
  specification of the replay, the refinement of an abstract synchroniser with a finite map, and
  that errors change nothing.
\<close>

section \<open>Mutations\<close>

definition WATCH_SYNC_BUFFER_CAPACITY :: nat where
  "WATCH_SYNC_BUFFER_CAPACITY = 16"

datatype watch_sync_result =
    WATCH_SYNC_UNCHANGED
  | WATCH_SYNC_CHANGED
  | WATCH_SYNC_BUFFERED
  | WATCH_SYNC_NEEDS_SNAPSHOT
  | WATCH_SYNC_ERROR

text \<open>
  \<open>enum watch_sync_path\<close> together with the member of the union \<open>value\<close> it selects: the code
  writes and reads the member that belongs to the path. A mutation that is all zero bytes has
  path TEMPERATURE and temperature 0.
\<close>

datatype watch_sync_change =
    WATCH_SYNC_PATH_TEMPERATURE i16
  | WATCH_SYNC_PATH_WEATHER_CONDITION string
  | WATCH_SYNC_PATH_MUSIC_TITLE string
  | WATCH_SYNC_PATH_MUSIC_PLAYING bool
  | WATCH_SYNC_PATH_STEPS u32
  | WATCH_SYNC_PATH_NOTIFICATIONS watch_notification_list

record watch_sync_mutation =
  occupied :: bool
  revision :: u64
  change :: watch_sync_change

definition zero_mutation :: watch_sync_mutation where
  "zero_mutation = \<lparr>occupied = False, revision = 0, change = WATCH_SYNC_PATH_TEMPERATURE 0\<rparr>"

record watch_sync =
  sync_revision :: u64
  syncing :: bool
  buffered :: "watch_sync_mutation list"

text \<open>
  The value of a mutation by its path. \<open>text\<close> has 96 characters, of which the copy fills a
  prefix; the rest is read by nobody.
\<close>

definition parse_change ::
    "json_lib \<Rightarrow> string \<Rightarrow> watch_message_type \<Rightarrow> json_token \<Rightarrow> errno + watch_sync_change" where
  "parse_change J path type value_token =
     (if path = ''weather.temperature'' then
        (case parse_temperature value_token of
           Inl _ \<Rightarrow> Inl EINVAL | Inr t \<Rightarrow> Inr (WATCH_SYNC_PATH_TEMPERATURE t))
      else if path = ''weather.condition'' then
        (case copy_string value_token (zero_array 96) of
           Inl _ \<Rightarrow> Inl EINVAL | Inr s \<Rightarrow> Inr (WATCH_SYNC_PATH_WEATHER_CONDITION s))
      else if path = ''music.title'' then
        (case copy_string value_token (zero_array 96) of
           Inl _ \<Rightarrow> Inl EINVAL | Inr s \<Rightarrow> Inr (WATCH_SYNC_PATH_MUSIC_TITLE s))
      else if path = ''music.playing'' then
        (case parse_flag value_token of
           Inl _ \<Rightarrow> Inl EINVAL | Inr b \<Rightarrow> Inr (WATCH_SYNC_PATH_MUSIC_PLAYING b))
      else if path = ''steps'' then
        (case parse_steps value_token of
           Inl _ \<Rightarrow> Inl EINVAL | Inr n \<Rightarrow> Inr (WATCH_SYNC_PATH_STEPS n))
      else if path = ''notifications'' \<and> type = WATCH_MESSAGE_STATE_SET then
        (case parse_notifications J value_token of
           Inl _ \<Rightarrow> Inl EINVAL | Inr ns \<Rightarrow> Inr (WATCH_SYNC_PATH_NOTIFICATIONS ns))
      else Inl EPERM)"

definition parse_mutation ::
    "json_lib \<Rightarrow> watch_protocol_message \<Rightarrow> errno + watch_sync_mutation" where
  "parse_mutation J message =
     (case find_member J (payload message) ''path'' of
        Inl _ \<Rightarrow> Inl EINVAL
      | Inr path_token \<Rightarrow>
     (case find_member J (payload message) ''value'' of
        Inl _ \<Rightarrow> Inl EINVAL
      | Inr value_token \<Rightarrow>
     (case find_member J (payload message) ''revision'' of
        Inl _ \<Rightarrow> Inl EINVAL
      | Inr revision_token \<Rightarrow>
     (case copy_string path_token (zero_array 40) of
        Inl _ \<Rightarrow> Inl EINVAL
      | Inr path \<Rightarrow>
     (case parse_u64 revision_token of
        Inl _ \<Rightarrow> Inl EINVAL
      | Inr n \<Rightarrow>
     (case parse_change J (cstr path) (msg_type message) value_token of
        Inl e \<Rightarrow> Inl e
      | Inr c \<Rightarrow> Inr \<lparr>occupied = True, revision = n, change = c\<rparr>))))))"

fun apply_change :: "watch_sync_change \<Rightarrow> watch_state \<Rightarrow> watch_state" where
  "apply_change (WATCH_SYNC_PATH_TEMPERATURE t) state = state\<lparr>temperature_c := t\<rparr>"
| "apply_change (WATCH_SYNC_PATH_WEATHER_CONDITION s) state =
     state\<lparr>weather_condition := strncpy_terminated (weather_condition state) s\<rparr>"
| "apply_change (WATCH_SYNC_PATH_MUSIC_TITLE s) state =
     state\<lparr>music_title := strncpy_terminated (music_title state) s\<rparr>"
| "apply_change (WATCH_SYNC_PATH_MUSIC_PLAYING b) state = state\<lparr>music_playing := b\<rparr>"
| "apply_change (WATCH_SYNC_PATH_STEPS n) state = state\<lparr>steps := n\<rparr>"
| "apply_change (WATCH_SYNC_PATH_NOTIFICATIONS ns) state = state\<lparr>notifications := ns\<rparr>"

definition apply_mutation :: "watch_state \<Rightarrow> watch_sync_mutation \<Rightarrow> watch_state" where
  "apply_mutation state mutation = apply_change (change mutation) state"

section \<open>The buffer\<close>

fun holds_revision :: "u64 \<Rightarrow> watch_sync_mutation list \<Rightarrow> bool" where
  "holds_revision r [] = False"
| "holds_revision r (b # bs) = (if occupied b \<and> revision b = r then True else holds_revision r bs)"

fun store_free :: "watch_sync_mutation \<Rightarrow> watch_sync_mutation list \<Rightarrow> watch_sync_mutation list option" where
  "store_free m [] = None"
| "store_free m (b # bs) =
     (if \<not> occupied b then Some (m # bs)
      else case store_free m bs of None \<Rightarrow> None | Some bs' \<Rightarrow> Some (b # bs'))"

definition buffer_mutation :: "watch_sync \<Rightarrow> watch_sync_mutation \<Rightarrow> errno + watch_sync" where
  "buffer_mutation sync mutation =
     (if holds_revision (revision mutation) (buffered sync) then Inr sync
      else case store_free mutation (buffered sync) of
        None \<Rightarrow> Inl ENOSPC
      | Some bs \<Rightarrow> Inr (sync\<lparr>buffered := bs\<rparr>))"

text \<open>
  One pass over the buffer, from slot \<open>i\<close> on: stale slots are freed, \<open>next_slot\<close> is the index
  of the last slot that continues revision \<open>r\<close>, \<open>has_gap\<close> says whether a later one is waiting.
\<close>

fun scan_buffer ::
    "u64 \<Rightarrow> nat \<Rightarrow> watch_sync_mutation list \<Rightarrow> nat option \<Rightarrow> bool
       \<Rightarrow> watch_sync_mutation list \<times> nat option \<times> bool"
where
  "scan_buffer r i [] next_slot has_gap = ([], next_slot, has_gap)"
| "scan_buffer r i (b # bs) next_slot has_gap =
     (let (b, next_slot, has_gap) =
        (if \<not> occupied b then (b, next_slot, has_gap)
         else if revision b \<le> r then (b\<lparr>occupied := False\<rparr>, next_slot, has_gap)
         else if revision b = r + 1 then (b, Some i, has_gap)
         else (b, next_slot, True));
          (bs, next_slot, has_gap) = scan_buffer r (i + 1) bs next_slot has_gap
      in (b # bs, next_slot, has_gap))"

definition free_stale :: "u64 \<Rightarrow> watch_sync_mutation \<Rightarrow> watch_sync_mutation" where
  "free_stale r b = (if occupied b \<and> revision b \<le> r then b\<lparr>occupied := False\<rparr> else b)"

definition continues :: "u64 \<Rightarrow> watch_sync_mutation \<Rightarrow> bool" where
  "continues r b \<longleftrightarrow> occupied b \<and> revision b = r + 1 \<and> r < r + 1"

definition beyond_gap :: "u64 \<Rightarrow> watch_sync_mutation \<Rightarrow> bool" where
  "beyond_gap r b \<longleftrightarrow> occupied b \<and> \<not> revision b \<le> r \<and> revision b \<noteq> r + 1"

fun last_continuing :: "u64 \<Rightarrow> nat \<Rightarrow> watch_sync_mutation list \<Rightarrow> nat option \<Rightarrow> nat option" where
  "last_continuing r i [] n = n"
| "last_continuing r i (b # bs) n =
     last_continuing r (i + 1) bs (if continues r b then Some i else n)"

lemma scan_buffer_closed:
  "scan_buffer r i bs n g =
     (map (free_stale r) bs, last_continuing r i bs n, g \<or> list_ex (beyond_gap r) bs)"
proof (induction bs arbitrary: i n g)
  case Nil
  then show ?case by simp
next
  case (Cons b bs)
  show ?case
    by (auto simp: Cons.IH Let_def free_stale_def continues_def beyond_gap_def not_le)
qed

lemma last_continuing_Some:
  "last_continuing r i bs n = Some k \<Longrightarrow>
     n = Some k \<or> (i \<le> k \<and> k < i + length bs \<and> continues r (bs ! (k - i)))"
proof (induction bs arbitrary: i n)
  case Nil
  then show ?case by simp
next
  case (Cons b bs)
  from Cons.prems have "last_continuing r (Suc i) bs (if continues r b then Some i else n) = Some k"
    by simp
  from Cons.IH [OF this] show ?case
    by (cases "continues r b"; cases "i = k") (auto simp: nth_Cons')
qed

lemma last_continuing_None:
  "last_continuing r i bs n = None \<longleftrightarrow> n = None \<and> \<not> list_ex (continues r) bs"
  by (induction bs arbitrary: i n) auto

definition occupied_count :: "watch_sync_mutation list \<Rightarrow> nat" where
  "occupied_count bs = length (filter occupied bs)"

lemma occupied_count_free_stale: "occupied_count (map (free_stale r) bs) \<le> occupied_count bs"
  by (induction bs) (auto simp: occupied_count_def free_stale_def)

lemma occupied_count_release:
  "k < length bs \<Longrightarrow> occupied (bs ! k) \<Longrightarrow>
   occupied_count (bs[k := (bs ! k)\<lparr>occupied := False\<rparr>]) < occupied_count bs"
  by (induction bs arbitrary: k) (auto simp: occupied_count_def nth_Cons' list_update_code split: nat.splits)

text \<open>The loop of \<open>replay_buffer\<close>; every round that does not return frees a slot.\<close>

function replay_buffer :: "watch_sync \<Rightarrow> watch_state \<Rightarrow> bool \<Rightarrow> bool \<times> watch_sync \<times> watch_state" where
  "replay_buffer sync state changed =
     (let (bs, next_slot, has_gap) = scan_buffer (sync_revision sync) 0 (buffered sync) None False in
      case next_slot of
        None \<Rightarrow> (changed, sync\<lparr>buffered := bs, syncing := has_gap\<rparr>, state)
      | Some k \<Rightarrow>
          replay_buffer
            (sync\<lparr>buffered := bs[k := (bs ! k)\<lparr>occupied := False\<rparr>],
                  sync_revision := revision (bs ! k)\<rparr>)
            (apply_mutation state (bs ! k)) True)"
  by pat_completeness auto

termination
proof (relation "measure (\<lambda>(sync, _, _). occupied_count (buffered sync))")
  show "wf (measure (\<lambda>(sync :: watch_sync, _ :: watch_state, _ :: bool). occupied_count (buffered sync)))"
    by simp
next
  fix sync :: watch_sync and state :: watch_state and changed x bs y next_slot has_gap k
  assume x: "x = scan_buffer (sync_revision sync) 0 (buffered sync) None False"
    and pairs: "(bs, y) = x" "(next_slot, has_gap) = y" and some: "next_slot = Some k"
  let ?r = "sync_revision sync"
  from x pairs some have bs: "bs = map (free_stale ?r) (buffered sync)"
    and next_k: "last_continuing ?r 0 (buffered sync) None = Some k"
    by (simp_all add: scan_buffer_closed)
  from last_continuing_Some [OF next_k]
  have k: "k < length (buffered sync)" "continues ?r (buffered sync ! k)" by simp_all
  then have "k < length bs" "occupied (bs ! k)"
    by (simp_all add: bs free_stale_def continues_def not_le)
  then have "occupied_count (bs[k := (bs ! k)\<lparr>occupied := False\<rparr>]) < occupied_count bs"
    by (rule occupied_count_release)
  also have "\<dots> \<le> occupied_count (buffered sync)"
    unfolding bs by (rule occupied_count_free_stale)
  finally show "((sync\<lparr>buffered := bs[k := (bs ! k)\<lparr>occupied := False\<rparr>],
        sync_revision := revision (bs ! k)\<rparr>, apply_mutation state (bs ! k), True), sync, state, changed)
      \<in> measure (\<lambda>(sync, _, _). occupied_count (buffered sync))"
    by simp
qed

declare replay_buffer.simps [simp del]

section \<open>Operations\<close>

definition watch_sync_init :: watch_sync where
  "watch_sync_init = \<lparr>sync_revision = 0, syncing = False,
                      buffered = replicate WATCH_SYNC_BUFFER_CAPACITY zero_mutation\<rparr>"

definition watch_sync_connected :: "watch_sync \<Rightarrow> watch_sync" where
  "watch_sync_connected sync = sync\<lparr>syncing := True\<rparr>"

definition watch_sync_disconnected :: "watch_sync \<Rightarrow> watch_sync" where
  "watch_sync_disconnected sync =
     sync\<lparr>syncing := False, buffered := replicate WATCH_SYNC_BUFFER_CAPACITY zero_mutation\<rparr>"

definition watch_sync_revision :: "watch_sync \<Rightarrow> u64" where
  "watch_sync_revision sync = sync_revision sync"

definition watch_sync_is_synchronized :: "watch_sync \<Rightarrow> bool" where
  "watch_sync_is_synchronized sync \<longleftrightarrow> \<not> syncing sync"

definition watch_sync_handle ::
    "json_lib \<Rightarrow> watch_sync \<Rightarrow> watch_state \<Rightarrow> watch_protocol_message
       \<Rightarrow> watch_sync_result \<times> watch_sync \<times> watch_state"
where
  "watch_sync_handle J sync state message =
     (if msg_type message = WATCH_MESSAGE_SYNC_RESPONSE then
        (case parse_snapshot J message state of
           Inl _ \<Rightarrow> (WATCH_SYNC_ERROR, sync, state)
         | Inr (candidate, n) \<Rightarrow>
             (case replay_buffer (sync\<lparr>sync_revision := n\<rparr>) candidate False of
                (_, sync, state) \<Rightarrow>
                  (if syncing sync then WATCH_SYNC_NEEDS_SNAPSHOT else WATCH_SYNC_CHANGED,
                   sync, state)))
      else if msg_type message \<noteq> WATCH_MESSAGE_STATE_SET \<and>
              msg_type message \<noteq> WATCH_MESSAGE_STATE_PATCH then
        (WATCH_SYNC_UNCHANGED, sync, state)
      else case parse_mutation J message of
        Inl _ \<Rightarrow> (WATCH_SYNC_ERROR, sync, state)
      | Inr mutation \<Rightarrow>
          (if revision mutation \<le> sync_revision sync then (WATCH_SYNC_UNCHANGED, sync, state)
           else if syncing sync then
             (case buffer_mutation sync mutation of
                Inl _ \<Rightarrow> (WATCH_SYNC_ERROR, sync, state)
              | Inr sync \<Rightarrow> (WATCH_SYNC_BUFFERED, sync, state))
           else if revision mutation > sync_revision sync + 1 then
             (let sync = sync\<lparr>syncing := True\<rparr> in
              case buffer_mutation sync mutation of
                Inl _ \<Rightarrow> (WATCH_SYNC_ERROR, sync, state)
              | Inr sync \<Rightarrow> (WATCH_SYNC_NEEDS_SNAPSHOT, sync, state))
           else
             (WATCH_SYNC_CHANGED, sync\<lparr>sync_revision := revision mutation\<rparr>,
              apply_mutation state mutation)))"

section \<open>The buffer as a map from revisions to changes\<close>

definition waiting :: "watch_sync_mutation list \<Rightarrow> nat \<rightharpoonup> watch_sync_change" where
  "waiting bs = map_of (map (\<lambda>b. (unat (revision b), change b)) (filter occupied bs))"

definition distinct_revisions :: "watch_sync_mutation list \<Rightarrow> bool" where
  "distinct_revisions bs \<longleftrightarrow> distinct (map revision (filter occupied bs))"

lemma waiting_simps [simp]:
  "waiting [] = Map.empty"
  "waiting (b # bs) =
     (if occupied b then (waiting bs)(unat (revision b) \<mapsto> change b) else waiting bs)"
  by (simp_all add: waiting_def)

lemma waiting_None_iff: "waiting bs q = None \<longleftrightarrow> (\<forall>b \<in> set bs. occupied b \<longrightarrow> unat (revision b) \<noteq> q)"
  by (induction bs) auto

lemma waiting_Some_slot:
  "waiting bs q = Some c \<Longrightarrow> \<exists>b \<in> set bs. occupied b \<and> unat (revision b) = q \<and> change b = c"
  by (induction bs) (auto split: if_splits)

lemma waiting_empty_iff: "waiting bs = Map.empty \<longleftrightarrow> \<not> list_ex occupied bs"
proof
  assume "waiting bs = Map.empty"
  then have "\<forall>q. waiting bs q = None" by simp
  then show "\<not> list_ex occupied bs" by (auto simp: waiting_None_iff list_ex_iff)
qed (auto simp: waiting_None_iff list_ex_iff)

lemma distinct_revisions_Cons:
  "distinct_revisions (b # bs) \<longleftrightarrow>
     distinct_revisions bs \<and> (occupied b \<longrightarrow> waiting bs (unat (revision b)) = None)"
  by (auto simp: distinct_revisions_def waiting_None_iff image_iff Bex_def simp flip: word_unat_eq_iff)

lemma waiting_slot:
  "distinct_revisions bs \<Longrightarrow> b \<in> set bs \<Longrightarrow> occupied b \<Longrightarrow>
     waiting bs (unat (revision b)) = Some (change b)"
  by (induction bs) (auto simp: distinct_revisions_Cons waiting_None_iff)

lemma holds_revision_iff: "holds_revision r bs \<longleftrightarrow> waiting bs (unat r) \<noteq> None"
  by (induction bs) (auto simp: word_unat_eq_iff)

lemma store_free_waiting:
  "store_free m bs = Some bs' \<Longrightarrow> occupied m \<Longrightarrow> waiting bs (unat (revision m)) = None \<Longrightarrow>
     distinct_revisions bs \<Longrightarrow>
     waiting bs' = (waiting bs)(unat (revision m) \<mapsto> change m) \<and> distinct_revisions bs' \<and>
     length bs' = length bs"
proof (induction bs arbitrary: bs')
  case Nil
  then show ?case by simp
next
  case (Cons b bs)
  show ?case
  proof (cases "occupied b")
    case False
    with Cons.prems show ?thesis by (auto simp: distinct_revisions_Cons)
  next
    case True
    with Cons.prems(1) obtain bs'' where rest: "store_free m bs = Some bs''" and bs': "bs' = b # bs''"
      by (auto split: option.splits)
    from Cons.prems True have other: "unat (revision b) \<noteq> unat (revision m)"
      and none: "waiting bs (unat (revision m)) = None"
      by (auto split: if_splits)
    with Cons.IH [OF rest] Cons.prems True show ?thesis
      by (auto simp: bs' distinct_revisions_Cons fun_eq_iff)
  qed
qed

lemma store_free_None: "store_free m bs = None \<longleftrightarrow> list_all occupied bs"
  by (induction bs) (auto split: option.splits)

lemma waiting_free_stale:
  "waiting (map (free_stale r) bs) = (\<lambda>q. if q \<le> unat r then None else waiting bs q)"
  by (induction bs) (auto simp: free_stale_def word_le_nat_alt fun_eq_iff)

lemma distinct_free_stale: "distinct_revisions bs \<Longrightarrow> distinct_revisions (map (free_stale r) bs)"
  by (induction bs) (auto simp: distinct_revisions_Cons waiting_free_stale free_stale_def)

lemma waiting_release:
  "distinct_revisions bs \<Longrightarrow> k < length bs \<Longrightarrow> occupied (bs ! k) \<Longrightarrow>
     waiting (bs[k := (bs ! k)\<lparr>occupied := False\<rparr>]) = (waiting bs)(unat (revision (bs ! k)) := None) \<and>
     distinct_revisions (bs[k := (bs ! k)\<lparr>occupied := False\<rparr>])"
proof (induction bs arbitrary: k)
  case Nil
  then show ?case by simp
next
  case (Cons b bs)
  show ?case
  proof (cases k)
    case 0
    with Cons.prems show ?thesis by (auto simp: distinct_revisions_Cons fun_upd_idem)
  next
    case (Suc j)
    with Cons.prems have j: "j < length bs" "occupied (bs ! j)" "distinct_revisions bs"
      by (simp_all add: distinct_revisions_Cons)
    then have "waiting bs (unat (revision (bs ! j))) = Some (change (bs ! j))"
      by (simp add: waiting_slot)
    with Cons.prems Suc have "occupied b \<Longrightarrow> unat (revision b) \<noteq> unat (revision (bs ! j))"
      by (auto simp: distinct_revisions_Cons)
    with Cons.IH [of j] j Cons.prems Suc show ?thesis
      by (auto simp: distinct_revisions_Cons fun_upd_twist)
  qed
qed

lemma unat_u64_successor: "r < r + 1 \<Longrightarrow> unat (r + 1 :: u64) = Suc (unat r)"
  by (cases "unat r = 2 ^ 64 - 1")
     (auto simp: word_less_nat_alt unat_word_ariths mod_Suc)

lemma continues_iff: "continues r b \<longleftrightarrow> occupied b \<and> unat (revision b) = Suc (unat r)"
proof
  assume "continues r b"
  then show "occupied b \<and> unat (revision b) = Suc (unat r)"
    by (auto simp: continues_def unat_u64_successor)
next
  assume asm: "occupied b \<and> unat (revision b) = Suc (unat r)"
  then have "Suc (unat r) < 2 ^ 64"
    using unsigned_less [of "revision b", where 'a = nat] by simp
  then have "unat (r + 1) = Suc (unat r)" by (simp add: unat_word_ariths)
  with asm show "continues r b"
    by (auto simp: continues_def word_unat_eq_iff word_less_nat_alt)
qed

lemma beyond_gap_iff: "beyond_gap r b \<longleftrightarrow> occupied b \<and> Suc (unat r) < unat (revision b)"
proof -
  have "beyond_gap r b \<longleftrightarrow> occupied b \<and> unat r < unat (revision b) \<and> \<not> continues r b"
    by (auto simp: beyond_gap_def continues_def word_less_nat_alt not_le)
  then show ?thesis by (auto simp: continues_iff)
qed

section \<open>What a replay does\<close>

text \<open>Applying the changes a map holds for the revisions after \<open>m\<close> up to \<open>n\<close>, in order.\<close>

definition apply_run :: "(nat \<rightharpoonup> watch_sync_change) \<Rightarrow> nat \<Rightarrow> nat \<Rightarrow> watch_state \<Rightarrow> watch_state" where
  "apply_run changes m n state = fold (\<lambda>q. apply_change (the (changes q))) [Suc m..<Suc n] state"

definition contiguous :: "(nat \<rightharpoonup> watch_sync_change) \<Rightarrow> nat \<Rightarrow> nat \<Rightarrow> bool" where
  "contiguous changes m n \<longleftrightarrow> m \<le> n \<and> (\<forall>q. m < q \<and> q \<le> n \<longrightarrow> changes q \<noteq> None) \<and> changes (Suc n) = None"

definition newer :: "nat \<Rightarrow> (nat \<rightharpoonup> watch_sync_change) \<Rightarrow> (nat \<rightharpoonup> watch_sync_change)" where
  "newer n changes = (\<lambda>q. if q \<le> n then None else changes q)"

lemma apply_run_refl [simp]: "apply_run changes n n s = s"
  by (simp add: apply_run_def)

lemma apply_run_step:
  "Suc m \<le> n \<Longrightarrow>
   apply_run changes (Suc m) n (apply_change (the (changes (Suc m))) s) = apply_run changes m n s"
  by (simp add: apply_run_def upt_conv_Cons del: upt_Suc)

lemma apply_run_cong:
  "(\<And>q. m < q \<Longrightarrow> q \<le> n \<Longrightarrow> f q = g q) \<Longrightarrow> apply_run f m n s = apply_run g m n s"
  unfolding apply_run_def by (rule fold_cong) auto

lemma contiguous_step:
  assumes "contiguous (newer (Suc m) f) (Suc m) n" and "f (Suc m) \<noteq> None"
  shows "contiguous f m n"
  unfolding contiguous_def
proof (intro conjI allI impI)
  show "m \<le> n" "f (Suc n) = None"
    using assms(1) by (auto simp: contiguous_def newer_def split: if_splits)
  fix q assume q: "m < q \<and> q \<le> n"
  show "f q \<noteq> None"
  proof (cases "q = Suc m")
    case True
    with assms(2) show ?thesis by simp
  next
    case False
    with q assms(1) have "newer (Suc m) f q \<noteq> None" by (simp add: contiguous_def)
    then show ?thesis by (auto simp: newer_def split: if_splits)
  qed
qed

lemma newer_idem [simp]: "m \<le> n \<Longrightarrow> newer n (newer m f) = newer n f"
  by (auto simp: newer_def fun_eq_iff)

text \<open>One round of the loop, seen on the map.\<close>

lemma replay_round:
  assumes dist: "distinct_revisions bs"
    and next_k: "last_continuing r 0 bs None = Some k"
    and bs': "bs' = (map (free_stale r) bs)[k := (map (free_stale r) bs ! k)\<lparr>occupied := False\<rparr>]"
    and b: "b = map (free_stale r) bs ! k"
  shows "unat (revision b) = Suc (unat r)" "waiting bs (Suc (unat r)) = Some (change b)"
    "waiting bs' = newer (Suc (unat r)) (waiting bs)" "distinct_revisions bs'"
    "length bs' = length bs"
proof -
  from last_continuing_Some [OF next_k] have k: "k < length bs" and c: "continues r (bs ! k)"
    by simp_all
  then have slot: "occupied (bs ! k)" "unat (revision (bs ! k)) = Suc (unat r)"
    by (simp_all add: continues_iff)
  then have same: "free_stale r (bs ! k) = bs ! k"
    by (simp add: free_stale_def word_le_nat_alt)
  with k b have bk: "b = bs ! k" by simp
  with slot show rev: "unat (revision b) = Suc (unat r)" by simp
  show "waiting bs (Suc (unat r)) = Some (change b)"
    using waiting_slot [OF dist nth_mem [OF k]] slot bk by simp
  have "waiting bs' = (waiting (map (free_stale r) bs))(Suc (unat r) := None) \<and> distinct_revisions bs'"
    using waiting_release [OF distinct_free_stale [OF dist], of k r] k slot same
    by (simp add: bs')
  then show "waiting bs' = newer (Suc (unat r)) (waiting bs)" "distinct_revisions bs'"
    by (auto simp: waiting_free_stale newer_def fun_eq_iff)
  show "length bs' = length bs" by (simp add: bs')
qed

lemma replay_end:
  assumes "distinct_revisions bs" and "last_continuing r 0 bs None = None"
  shows "waiting bs (Suc (unat r)) = None"
    "list_ex (beyond_gap r) bs \<longleftrightarrow> newer (unat r) (waiting bs) \<noteq> Map.empty"
proof -
  from assms(2) have none: "\<not> list_ex (continues r) bs" by (simp add: last_continuing_None)
  then show next_none: "waiting bs (Suc (unat r)) = None"
    by (auto simp: waiting_None_iff list_ex_iff continues_iff)
  have "newer (unat r) (waiting bs) = waiting (map (free_stale r) bs)"
    by (simp add: waiting_free_stale newer_def)
  then have "newer (unat r) (waiting bs) \<noteq> Map.empty \<longleftrightarrow> list_ex occupied (map (free_stale r) bs)"
    by (simp add: waiting_empty_iff)
  also have "\<dots> \<longleftrightarrow> list_ex (beyond_gap r) bs"
  proof -
    have "occupied (free_stale r b) \<longleftrightarrow> beyond_gap r b" if "b \<in> set bs" for b
      using none that
      by (auto simp: list_ex_iff free_stale_def beyond_gap_iff continues_iff word_le_nat_alt
          not_le intro: Suc_lessI)
    then show ?thesis by (auto simp: list_ex_iff)
  qed
  finally show "list_ex (beyond_gap r) bs \<longleftrightarrow> newer (unat r) (waiting bs) \<noteq> Map.empty" by simp
qed

lemma replay_buffer_spec:
  assumes "replay_buffer sync s changed = (changed', sync', s')"
    and "distinct_revisions (buffered sync)"
  shows "contiguous (waiting (buffered sync)) (unat (sync_revision sync)) (unat (sync_revision sync')) \<and>
     s' = apply_run (waiting (buffered sync)) (unat (sync_revision sync)) (unat (sync_revision sync')) s \<and>
     waiting (buffered sync') = newer (unat (sync_revision sync')) (waiting (buffered sync)) \<and>
     (syncing sync' \<longleftrightarrow> waiting (buffered sync') \<noteq> Map.empty) \<and>
     (changed' \<longleftrightarrow> changed \<or> sync_revision sync' \<noteq> sync_revision sync) \<and>
     distinct_revisions (buffered sync') \<and> length (buffered sync') = length (buffered sync)"
  using assms
proof (induction sync s changed rule: replay_buffer.induct)
  case (1 sync s changed)
  let ?r = "sync_revision sync" and ?bs = "buffered sync"
  show ?case
  proof (cases "last_continuing ?r 0 ?bs None")
    case None
    note final = replay_end [OF 1(3) None]
    from 1(2) None have "changed' = changed" "s' = s"
      "sync' = sync\<lparr>buffered := map (free_stale ?r) ?bs, syncing := list_ex (beyond_gap ?r) ?bs\<rparr>"
      by (simp_all add: replay_buffer.simps [of sync] scan_buffer_closed)
    then show ?thesis
      using final 1(3)
      by (simp add: contiguous_def waiting_free_stale newer_def [symmetric] distinct_free_stale)
         (auto simp: newer_def)
  next
    case (Some k)
    let ?b = "map (free_stale ?r) ?bs ! k"
    let ?bs' = "(map (free_stale ?r) ?bs)[k := ?b\<lparr>occupied := False\<rparr>]"
    let ?sync = "sync\<lparr>buffered := ?bs', sync_revision := revision ?b\<rparr>"
    note round = replay_round [OF 1(3) Some refl refl]
    from 1(2) Some have rest: "replay_buffer ?sync (apply_mutation s ?b) True = (changed', sync', s')"
      by (simp add: replay_buffer.simps [of sync] scan_buffer_closed)
    have scan: "(map (free_stale ?r) ?bs, Some k, list_ex (beyond_gap ?r) ?bs) =
        scan_buffer ?r 0 ?bs None False"
      by (simp add: scan_buffer_closed Some)
    have IH: "contiguous (waiting ?bs') (Suc (unat ?r)) (unat (sync_revision sync')) \<and>
       s' = apply_run (waiting ?bs') (Suc (unat ?r)) (unat (sync_revision sync')) (apply_mutation s ?b) \<and>
       waiting (buffered sync') = newer (unat (sync_revision sync')) (waiting ?bs') \<and>
       (syncing sync' \<longleftrightarrow> waiting (buffered sync') \<noteq> Map.empty) \<and> changed' \<and>
       distinct_revisions (buffered sync') \<and> length (buffered sync') = length ?bs"
      using 1(1) [OF refl scan refl refl rest] round by simp
    let ?n = "unat (sync_revision sync')"
    from IH have later: "Suc (unat ?r) \<le> ?n" by (simp add: contiguous_def)
    have "waiting ?bs' q = waiting ?bs q" if "Suc (unat ?r) < q" for q
      using that round(3) by (simp add: newer_def)
    then have run: "apply_run (waiting ?bs') (Suc (unat ?r)) ?n = apply_run (waiting ?bs) (Suc (unat ?r)) ?n"
      by (intro ext apply_run_cong) simp
    have "contiguous (waiting ?bs) (unat ?r) ?n"
      by (rule contiguous_step) (use IH round(2,3) in simp_all)
    moreover have "s' = apply_run (waiting ?bs) (unat ?r) ?n s"
      using IH run apply_run_step [OF later, of "waiting ?bs" s] round(2)
      by (simp add: apply_mutation_def)
    moreover have "?n \<noteq> unat ?r" using later by simp
    then have "sync_revision sync' \<noteq> ?r" by auto
    ultimately show ?thesis using IH later round(3) by simp
  qed
qed

lemma waiting_zero_slots [simp]: "waiting (replicate n zero_mutation) = Map.empty"
  by (simp add: waiting_def zero_mutation_def)

lemma distinct_zero_slots [simp]: "distinct_revisions (replicate n zero_mutation)"
  by (simp add: distinct_revisions_def zero_mutation_def)

lemma card_waiting: "distinct_revisions bs \<Longrightarrow> card (dom (waiting bs)) = occupied_count bs"
proof (induction bs)
  case (Cons b bs)
  have "finite (dom (waiting bs))" by (simp add: waiting_def finite_dom_map_of)
  moreover have "dom (\<lambda>a. if a = q then Some c else waiting bs a) = insert q (dom (waiting bs))" for q c
    by auto
  ultimately show ?case
    using Cons by (auto simp: distinct_revisions_Cons occupied_count_def card_insert_if domIff)
qed (simp add: occupied_count_def)

text \<open>
  C13. The replay ends and is bounded: it advances the revision by at most the number of occupied
  slots, so by at most sixteen, frees every slot up to the revision it reaches, and stops only
  where the next revision is not waiting.
\<close>

theorem replay_terminates:
  assumes "distinct_revisions (buffered sync)"
  shows "(case replay_buffer sync s changed of (_, sync', _) \<Rightarrow>
     unat (sync_revision sync') \<le> unat (sync_revision sync) + occupied_count (buffered sync) \<and>
     waiting (buffered sync') = newer (unat (sync_revision sync')) (waiting (buffered sync)) \<and>
     waiting (buffered sync) (Suc (unat (sync_revision sync'))) = None)"
proof -
  obtain changed' sync' s' where r: "replay_buffer sync s changed = (changed', sync', s')"
    by (metis prod_cases3)
  let ?m = "unat (sync_revision sync)" and ?n = "unat (sync_revision sync')"
  note spec = replay_buffer_spec [OF r assms]
  then have "{?m<..?n} \<subseteq> dom (waiting (buffered sync))"
    by (auto simp: contiguous_def)
  then have "card {?m<..?n} \<le> occupied_count (buffered sync)"
    unfolding card_waiting [OF assms, symmetric]
    by (rule card_mono [rotated]) (simp add: waiting_def finite_dom_map_of)
  with spec show ?thesis by (simp add: r contiguous_def)
qed

theorem replay_terminates_witness:
  "unat (sync_revision (fst (snd (replay_buffer watch_sync_init watch_state_init False)))) \<le> 0"
proof -
  have "distinct_revisions (buffered watch_sync_init)" "occupied_count (buffered watch_sync_init) = 0"
    "sync_revision watch_sync_init = 0"
    by (simp add: watch_sync_init_def,
        simp add: watch_sync_init_def occupied_count_def zero_mutation_def,
        simp add: watch_sync_init_def)
  with replay_terminates [of watch_sync_init watch_state_init False] show ?thesis
    by (simp add: split_beta)
qed

section \<open>The invariant of the synchroniser\<close>

definition wf_change :: "watch_sync_change \<Rightarrow> bool" where
  "wf_change c \<longleftrightarrow>
     (case c of WATCH_SYNC_PATH_NOTIFICATIONS ns \<Rightarrow> wf_notification_list ns | _ \<Rightarrow> True)"

definition wf_sync :: "watch_sync \<Rightarrow> bool" where
  "wf_sync sync \<longleftrightarrow>
     length (buffered sync) = WATCH_SYNC_BUFFER_CAPACITY \<and>
     distinct_revisions (buffered sync) \<and>
     (\<forall>q c. waiting (buffered sync) q = Some c \<longrightarrow> unat (sync_revision sync) < q \<and> wf_change c) \<and>
     (\<not> syncing sync \<longrightarrow> waiting (buffered sync) = Map.empty)"

lemma wf_apply_change [wf_intros]: "wf_state s \<Longrightarrow> wf_change c \<Longrightarrow> wf_state (apply_change c s)"
  by (cases c)
     (auto simp: wf_state_def wf_change_def intro!: cstring_array_strncpy_terminated)

lemma wf_apply_run:
  assumes "wf_state s" and "\<And>q c. changes q = Some c \<Longrightarrow> wf_change c" and "contiguous changes m n"
  shows "wf_state (apply_run changes m n s)"
proof -
  have "\<forall>q \<in> set qs. m < q \<and> q \<le> n \<Longrightarrow> wf_state s \<Longrightarrow>
      wf_state (fold (\<lambda>q. apply_change (the (changes q))) qs s)" for qs s
  proof (induction qs arbitrary: s)
    case Nil
    then show ?case by simp
  next
    case (Cons q qs)
    then obtain c where "changes q = Some c"
      using assms(3) by (auto simp: contiguous_def)
    then have "wf_state (apply_change (the (changes q)) s)"
      using Cons.prems assms(2) by (simp add: wf_apply_change)
    with Cons show ?case by simp
  qed
  from this [of "[Suc m..<Suc n]" s] show ?thesis
    using assms(1) by (simp add: apply_run_def del: upt_Suc)
qed

lemma parse_change_wf: "parse_change J path type tok = Inr c \<Longrightarrow> wf_change c"
  by (auto simp: parse_change_def wf_change_def dest: parse_notifications_wf
      split: if_splits sum.splits)

lemma parse_mutation_wf: "parse_mutation J msg = Inr m \<Longrightarrow> occupied m \<and> wf_change (change m)"
  by (auto simp: parse_mutation_def dest: parse_change_wf split: sum.splits)

lemma wf_sync_init [simp, wf_intros]: "wf_sync watch_sync_init"
  by (simp add: wf_sync_def watch_sync_init_def)

lemma wf_sync_connected [wf_intros]: "wf_sync sync \<Longrightarrow> wf_sync (watch_sync_connected sync)"
  by (simp add: wf_sync_def watch_sync_connected_def)

lemma wf_sync_disconnected [wf_intros]: "wf_sync sync \<Longrightarrow> wf_sync (watch_sync_disconnected sync)"
  by (simp add: wf_sync_def watch_sync_disconnected_def)

lemma full_iff:
  "list_all occupied bs \<longleftrightarrow> length bs \<le> occupied_count bs"
  by (induction bs) (auto simp: occupied_count_def dest: le_trans [OF _ length_filter_le] intro: le_SucI)

section \<open>The abstract synchroniser\<close>

text \<open>
  What the component promises, without slots: a revision, whether a snapshot is awaited, and
  the finite map of waiting changes.
\<close>

type_synonym sync_view = "nat \<times> bool \<times> (nat \<rightharpoonup> watch_sync_change)"

definition sync_view :: "watch_sync \<Rightarrow> sync_view" where
  "sync_view sync = (unat (sync_revision sync), syncing sync, waiting (buffered sync))"

definition mutation_spec ::
    "sync_view \<Rightarrow> nat \<Rightarrow> watch_sync_change \<Rightarrow> watch_state \<Rightarrow> watch_sync_result \<times> sync_view \<times> watch_state"
where
  "mutation_spec view q c state =
     (case view of (r, awaiting, changes) \<Rightarrow>
       if q \<le> r then (WATCH_SYNC_UNCHANGED, view, state)
       else if awaiting then
         (if q \<in> dom changes then (WATCH_SYNC_BUFFERED, view, state)
          else if card (dom changes) < WATCH_SYNC_BUFFER_CAPACITY
          then (WATCH_SYNC_BUFFERED, (r, True, changes(q \<mapsto> c)), state)
          else (WATCH_SYNC_ERROR, view, state))
       else if q = Suc r then (WATCH_SYNC_CHANGED, (q, False, Map.empty), apply_change c state)
       else (WATCH_SYNC_NEEDS_SNAPSHOT, (r, True, [q \<mapsto> c]), state))"

definition snapshot_spec ::
    "(nat \<rightharpoonup> watch_sync_change) \<Rightarrow> nat \<Rightarrow> watch_state \<Rightarrow> watch_sync_result \<times> sync_view \<times> watch_state \<Rightarrow> bool"
where
  "snapshot_spec changes n candidate answer \<longleftrightarrow>
     (case answer of (result, (r, awaiting, changes'), state) \<Rightarrow>
        contiguous changes n r \<and> state = apply_run changes n r candidate \<and>
        changes' = newer r changes \<and> (awaiting \<longleftrightarrow> changes' \<noteq> Map.empty) \<and>
        result = (if awaiting then WATCH_SYNC_NEEDS_SNAPSHOT else WATCH_SYNC_CHANGED))"

lemma buffer_mutation_spec:
  assumes wf: "wf_sync sync" and m: "occupied m"
  shows "(case buffer_mutation sync m of
      Inl _ \<Rightarrow> unat (revision m) \<notin> dom (waiting (buffered sync)) \<and>
               WATCH_SYNC_BUFFER_CAPACITY \<le> card (dom (waiting (buffered sync)))
    | Inr sync' \<Rightarrow>
        (if unat (revision m) \<in> dom (waiting (buffered sync)) then sync' = sync
         else card (dom (waiting (buffered sync))) < WATCH_SYNC_BUFFER_CAPACITY \<and>
              sync_revision sync' = sync_revision sync \<and> syncing sync' = syncing sync \<and>
              waiting (buffered sync') = (waiting (buffered sync))(unat (revision m) \<mapsto> change m) \<and>
              distinct_revisions (buffered sync') \<and>
              length (buffered sync') = WATCH_SYNC_BUFFER_CAPACITY))"
proof (cases "holds_revision (revision m) (buffered sync)")
  case True
  then show ?thesis by (auto simp: buffer_mutation_def holds_revision_iff)
next
  case False
  from wf have dist: "distinct_revisions (buffered sync)"
    and len: "length (buffered sync) = WATCH_SYNC_BUFFER_CAPACITY"
    by (simp_all add: wf_sync_def)
  have full: "list_all occupied (buffered sync) \<longleftrightarrow>
      WATCH_SYNC_BUFFER_CAPACITY \<le> card (dom (waiting (buffered sync)))"
    by (simp add: full_iff len card_waiting [OF dist])
  show ?thesis
  proof (cases "store_free m (buffered sync)")
    case None
    then have "list_all occupied (buffered sync)" by (simp only: store_free_None)
    with None False full show ?thesis
      by (auto simp: buffer_mutation_def holds_revision_iff)
  next
    case (Some bs)
    then have "\<not> list_all occupied (buffered sync)" by (metis option.distinct(1) store_free_None)
    with False full Some m dist len store_free_waiting [OF Some m] show ?thesis
      by (auto simp: buffer_mutation_def holds_revision_iff)
  qed
qed

text \<open>An empty buffer always takes a mutation.\<close>

lemma buffer_mutation_empty:
  assumes "wf_sync sync" "occupied m" "waiting (buffered sync) = Map.empty"
  obtains sync' where "buffer_mutation (sync\<lparr>syncing := True\<rparr>) m = Inr sync'"
    "sync_view sync' = (unat (sync_revision sync), True, [unat (revision m) \<mapsto> change m])"
    "distinct_revisions (buffered sync')" "length (buffered sync') = WATCH_SYNC_BUFFER_CAPACITY"
proof -
  from assms(1) have wf: "wf_sync (sync\<lparr>syncing := True\<rparr>)" by (simp add: wf_sync_def)
  show ?thesis
    using buffer_mutation_spec [OF wf assms(2)] assms(3) that
    by (auto simp: sync_view_def WATCH_SYNC_BUFFER_CAPACITY_def split: sum.splits)
qed

section \<open>Handling a message\<close>

definition is_mutation :: "watch_protocol_message \<Rightarrow> bool" where
  "is_mutation msg \<longleftrightarrow> msg_type msg \<in> {WATCH_MESSAGE_STATE_SET, WATCH_MESSAGE_STATE_PATCH}"

lemma handle_snapshot:
  assumes wf: "wf_sync sync" and snap: "msg_type msg = WATCH_MESSAGE_SYNC_RESPONSE"
    and parsed: "parse_snapshot J msg s = Inr (candidate, n)"
    and handle: "watch_sync_handle J sync s msg = (result, sync', s')"
  shows "snapshot_spec (waiting (buffered sync)) (unat n) candidate (result, sync_view sync', s')"
    and "wf_sync sync'"
proof -
  obtain changed sync1 s1 where replay:
      "replay_buffer (sync\<lparr>sync_revision := n\<rparr>) candidate False = (changed, sync1, s1)"
    by (metis prod_cases3)
  with handle snap parsed have eq: "sync' = sync1" "s' = s1"
      "result = (if syncing sync1 then WATCH_SYNC_NEEDS_SNAPSHOT else WATCH_SYNC_CHANGED)"
    by (auto simp: watch_sync_handle_def)
  from wf have dist: "distinct_revisions (buffered (sync\<lparr>sync_revision := n\<rparr>))"
    by (simp add: wf_sync_def)
  note spec = replay_buffer_spec [OF replay dist]
  show "snapshot_spec (waiting (buffered sync)) (unat n) candidate (result, sync_view sync', s')"
    using spec by (simp add: snapshot_spec_def sync_view_def eq)
  show "wf_sync sync'"
    using spec wf by (auto simp: wf_sync_def eq newer_def split: if_splits)
qed

lemma unat_successor_cases:
  "\<not> q \<le> r \<Longrightarrow> q > r + 1 \<longleftrightarrow> unat q \<noteq> Suc (unat r)" for q r :: u64
proof -
  assume "\<not> q \<le> r"
  then have "unat r < unat q" by (simp add: word_less_nat_alt not_le)
  moreover have "unat q < 2 ^ 64" using unsigned_less [of q, where 'a = nat] by simp
  ultimately have "unat (r + 1) = Suc (unat r)" by (simp add: unat_word_ariths)
  then show ?thesis using \<open>unat r < unat q\<close> by (auto simp: word_less_nat_alt)
qed

lemma handle_mutation:
  assumes wf: "wf_sync sync" and mut: "is_mutation msg"
    and parsed: "parse_mutation J msg = Inr m"
    and handle: "watch_sync_handle J sync s msg = (result, sync', s')"
  shows "(result, sync_view sync', s') =
      mutation_spec (sync_view sync) (unat (revision m)) (change m) s"
    and "wf_sync sync'"
proof -
  from parse_mutation_wf [OF parsed] have m: "occupied m" "wf_change (change m)" by simp_all
  have type: "msg_type msg \<noteq> WATCH_MESSAGE_SYNC_RESPONSE"
    "msg_type msg = WATCH_MESSAGE_STATE_SET \<or> msg_type msg = WATCH_MESSAGE_STATE_PATCH"
    using mut by (auto simp: is_mutation_def)
  let ?r = "sync_revision sync" and ?q = "revision m"
  have "(result, sync_view sync', s') =
      mutation_spec (sync_view sync) (unat ?q) (change m) s \<and> wf_sync sync'"
  proof (cases "?q \<le> ?r")
    case True
    with handle type parsed wf show ?thesis
      by (auto simp: watch_sync_handle_def mutation_spec_def sync_view_def word_le_nat_alt)
  next
    case later: False
    then have nat: "\<not> unat ?q \<le> unat ?r" by (simp add: word_le_nat_alt)
    show ?thesis
    proof (cases "syncing sync")
      case True
      then show ?thesis
        using handle type parsed wf later nat m buffer_mutation_spec [OF wf m(1)]
        by (auto simp: watch_sync_handle_def mutation_spec_def sync_view_def wf_sync_def
            split: sum.splits if_splits)
    next
      case False
      with wf have empty: "waiting (buffered sync) = Map.empty" by (simp add: wf_sync_def)
      from buffer_mutation_empty [OF wf m(1) empty] obtain sync1 where sync1:
          "buffer_mutation (sync\<lparr>syncing := True\<rparr>) m = Inr sync1"
          "sync_view sync1 = (unat ?r, True, [unat ?q \<mapsto> change m])"
          "distinct_revisions (buffered sync1)" "length (buffered sync1) = WATCH_SYNC_BUFFER_CAPACITY" .
      show ?thesis
      proof (cases "?q > ?r + 1")
        case True
        with handle type parsed later False sync1(1)
        have "result = WATCH_SYNC_NEEDS_SNAPSHOT" "sync' = sync1" "s' = s"
          by (auto simp: watch_sync_handle_def Let_def)
        then show ?thesis
          using True sync1(2-4) nat later False m(2)
          by (auto simp: mutation_spec_def sync_view_def unat_successor_cases wf_sync_def)
      next
        case step: False
        with handle type parsed later False
        have "result = WATCH_SYNC_CHANGED" "sync' = sync\<lparr>sync_revision := ?q\<rparr>" "s' = apply_mutation s m"
          by (auto simp: watch_sync_handle_def Let_def)
        moreover have "unat ?q = Suc (unat ?r)" using step later by (simp add: unat_successor_cases)
        ultimately show ?thesis
          using False empty wf
          by (simp add: mutation_spec_def sync_view_def apply_mutation_def wf_sync_def)
      qed
    qed
  qed
  then show "(result, sync_view sync', s') =
      mutation_spec (sync_view sync) (unat ?q) (change m) s" and "wf_sync sync'"
    by simp_all
qed

lemma handle_other:
  "msg_type msg \<noteq> WATCH_MESSAGE_SYNC_RESPONSE \<Longrightarrow> \<not> is_mutation msg \<Longrightarrow>
     watch_sync_handle J sync s msg = (WATCH_SYNC_UNCHANGED, sync, s)"
  by (simp add: watch_sync_handle_def is_mutation_def)

lemma handle_parse_error:
  "msg_type msg = WATCH_MESSAGE_SYNC_RESPONSE \<Longrightarrow> parse_snapshot J msg s = Inl e \<Longrightarrow>
     watch_sync_handle J sync s msg = (WATCH_SYNC_ERROR, sync, s)"
  "is_mutation msg \<Longrightarrow> parse_mutation J msg = Inl e \<Longrightarrow>
     watch_sync_handle J sync s msg = (WATCH_SYNC_ERROR, sync, s)"
  by (auto simp: watch_sync_handle_def is_mutation_def)

text \<open>The five ways a message is handled.\<close>

lemma handle_cases [case_names bad_snapshot snapshot bad_mutation mutation other]:
  assumes "watch_sync_handle J sync s msg = (result, sync', s')"
  obtains
    e where "msg_type msg = WATCH_MESSAGE_SYNC_RESPONSE" "parse_snapshot J msg s = Inl e"
      "result = WATCH_SYNC_ERROR" "sync' = sync" "s' = s"
  | candidate n where "msg_type msg = WATCH_MESSAGE_SYNC_RESPONSE"
      "parse_snapshot J msg s = Inr (candidate, n)"
  | e where "msg_type msg \<noteq> WATCH_MESSAGE_SYNC_RESPONSE" "is_mutation msg"
      "parse_mutation J msg = Inl e" "result = WATCH_SYNC_ERROR" "sync' = sync" "s' = s"
  | m where "msg_type msg \<noteq> WATCH_MESSAGE_SYNC_RESPONSE" "is_mutation msg"
      "parse_mutation J msg = Inr m"
  | "msg_type msg \<noteq> WATCH_MESSAGE_SYNC_RESPONSE" "\<not> is_mutation msg"
      "result = WATCH_SYNC_UNCHANGED" "sync' = sync" "s' = s"
proof (cases "msg_type msg = WATCH_MESSAGE_SYNC_RESPONSE")
  case True
  then show thesis
  proof (cases "parse_snapshot J msg s")
    case (Inl e)
    with handle_parse_error(1) [OF True Inl, of sync] assms True that(1) show thesis by simp
  next
    case (Inr x)
    with True that(2) show thesis by (cases x) simp
  qed
next
  case other: False
  show thesis
  proof (cases "is_mutation msg")
    case True
    show thesis
    proof (cases "parse_mutation J msg")
      case (Inl e)
      have "watch_sync_handle J sync s msg = (WATCH_SYNC_ERROR, sync, s)"
        by (rule handle_parse_error(2) [OF True Inl])
      with assms other True Inl that(3) show thesis by simp
    next
      case (Inr m)
      with other True that(4) show thesis by simp
    qed
  next
    case False
    with handle_other [OF other False, of J sync s] assms other that(5) show thesis by simp
  qed
qed

text \<open>
  C4. The synchroniser with its sixteen slots implements the abstract one with a finite map:
  a mutation is ignored when its revision is not new, applied when it is the next one and no
  snapshot is awaited, buffered (once per revision, up to sixteen) while one is awaited, and
  otherwise starts the wait; a snapshot is adopted and followed, in order, by exactly the
  waiting mutations that continue it without a gap.
\<close>

theorem sync_handle_refines:
  assumes "wf_sync sync"
  shows "(case watch_sync_handle J sync s msg of (result, sync', s') \<Rightarrow>
     (if msg_type msg = WATCH_MESSAGE_SYNC_RESPONSE then
        (case parse_snapshot J msg s of
           Inl _ \<Rightarrow> (result, sync', s') = (WATCH_SYNC_ERROR, sync, s)
         | Inr (candidate, n) \<Rightarrow>
             snapshot_spec (waiting (buffered sync)) (unat n) candidate (result, sync_view sync', s'))
      else if is_mutation msg then
        (case parse_mutation J msg of
           Inl _ \<Rightarrow> (result, sync', s') = (WATCH_SYNC_ERROR, sync, s)
         | Inr m \<Rightarrow> (result, sync_view sync', s') =
             mutation_spec (sync_view sync) (unat (revision m)) (change m) s)
      else (result, sync', s') = (WATCH_SYNC_UNCHANGED, sync, s)))"
proof -
  obtain result sync' s' where h: "watch_sync_handle J sync s msg = (result, sync', s')"
    by (metis prod_cases3)
  from h show ?thesis
  proof (cases rule: handle_cases)
    case bad_snapshot
    with h show ?thesis by simp
  next
    case (snapshot candidate n)
    with h handle_snapshot(1) [OF assms snapshot h] show ?thesis by simp
  next
    case bad_mutation
    with h show ?thesis by simp
  next
    case (mutation m)
    with h handle_mutation(1) [OF assms mutation(2,3) h] show ?thesis by simp
  next
    case other
    with h show ?thesis by simp
  qed
qed

lemma wf_sync_handle [wf_intros]:
  assumes wf: "wf_sync sync" and h: "watch_sync_handle J sync s msg = (result, sync', s')"
  shows "wf_sync sync'"
  using h
proof (cases rule: handle_cases)
  case (snapshot candidate n)
  then show ?thesis by (rule handle_snapshot(2) [OF wf _ _ h])
next
  case (mutation m)
  then show ?thesis by (intro handle_mutation(2) [OF wf _ _ h])
qed (use wf in simp_all)

lemma wf_state_handle [wf_intros]:
  assumes wf: "wf_sync sync" "wf_state s"
    and h: "watch_sync_handle J sync s msg = (result, sync', s')"
  shows "wf_state s'"
  using h
proof (cases rule: handle_cases)
  case (snapshot candidate n)
  have "wf_state candidate" by (rule wf_parse_snapshot [OF snapshot(2) wf(2)])
  moreover have "waiting (buffered sync) q = Some c \<Longrightarrow> wf_change c" for q c
    using wf(1) by (auto simp: wf_sync_def)
  ultimately show ?thesis
    using handle_snapshot(1) [OF wf(1) snapshot h]
    by (auto simp: snapshot_spec_def sync_view_def intro: wf_apply_run)
next
  case (mutation m)
  then show ?thesis
    using handle_mutation(1) [OF wf(1) mutation(2,3) h] parse_mutation_wf [OF mutation(3)] wf(2)
    by (auto simp: mutation_spec_def sync_view_def intro: wf_apply_change split: if_splits)
qed (use wf in simp_all)

text \<open>
  C11. An error changes nothing: when a message is malformed, names an unknown path or does not
  fit the buffer, neither the watch's state nor the synchroniser's is touched. Only the
  invariant makes this true of the branch that starts the wait, because it sets \<open>syncing\<close>
  before it buffers.
\<close>

theorem sync_error_atomic:
  assumes "wf_sync sync" and "watch_sync_handle J sync s msg = (WATCH_SYNC_ERROR, sync', s')"
  shows "s' = s \<and> sync_view sync' = sync_view sync"
  using assms(2)
proof (cases rule: handle_cases)
  case (snapshot candidate n)
  then show ?thesis
    using handle_snapshot(1) [OF assms(1) snapshot assms(2)]
    by (auto simp: snapshot_spec_def sync_view_def split: if_splits)
next
  case (mutation m)
  then show ?thesis
    using handle_mutation(1) [OF assms(1) mutation(2,3) assms(2)]
    by (auto simp: mutation_spec_def sync_view_def split: if_splits)
qed simp_all

text \<open>
  C12. The synchroniser's invariant holds at start and is kept by every operation: sixteen slots,
  no two waiting mutations with one revision, every waiting mutation newer than the adopted
  revision, and nothing waiting while no snapshot is awaited; with it, the watch's state stays
  well-formed under every message.
\<close>

theorem sync_invariant:
  assumes "wf_sync sync" and "wf_state s"
  shows "wf_sync watch_sync_init \<and> wf_sync (watch_sync_connected sync) \<and>
    wf_sync (watch_sync_disconnected sync) \<and>
    (case watch_sync_handle J sync s msg of (_, sync', s') \<Rightarrow> wf_sync sync' \<and> wf_state s')"
proof -
  obtain result sync' s' where h: "watch_sync_handle J sync s msg = (result, sync', s')"
    by (metis prod_cases3)
  show ?thesis
    using wf_sync_handle [OF assms(1) h] wf_state_handle [OF assms h] assms(1)
    by (simp add: h wf_sync_connected wf_sync_disconnected)
qed

text \<open>
  A mutation whose revision is not above the last adopted one is dropped even while a snapshot
  is awaited; the revision survives a disconnection, so this also hits a host that counts anew.
\<close>

lemma stale_mutation_dropped:
  assumes "is_mutation msg" "parse_mutation J msg = Inr m" "revision m \<le> sync_revision sync"
  shows "watch_sync_handle J (watch_sync_connected (watch_sync_disconnected sync)) s msg =
    (WATCH_SYNC_UNCHANGED, watch_sync_connected (watch_sync_disconnected sync), s)"
  using assms
  by (auto simp: watch_sync_handle_def is_mutation_def watch_sync_connected_def
      watch_sync_disconnected_def)

text \<open>A library for evaluation: one snapshot at revision 5, and mutations of the step count.\<close>

definition number :: "string \<Rightarrow> json_token" where
  "number s = \<lparr>tok_type = JSON_TOK_NUMBER, tok_text = s\<rparr>"

definition demo_lib :: json_lib where
  "demo_lib = table_lib
     [(''snapshot5'', Obj_Pair ''revision'' (number ''5'')
         (Obj_Pair ''state'' \<lparr>tok_type = JSON_TOK_OBJECT_START, tok_text = ''{}''\<rparr> Obj_End)),
      (''{}'', Obj_End),
      (''steps6'', Obj_Pair ''path'' \<lparr>tok_type = JSON_TOK_STRING, tok_text = ''steps''\<rparr>
         (Obj_Pair ''value'' (number ''42'') (Obj_Pair ''revision'' (number ''6'') Obj_End)))]"

definition demo_message :: "watch_message_type \<Rightarrow> string \<Rightarrow> watch_protocol_message" where
  "demo_message t text = \<lparr>msg_type = t, msg_id = 1, msg_reply_to = 0, has_reply_to = False,
                          payload = text\<rparr>"

lemma demo_parses:
  "parse_snapshot demo_lib (demo_message t ''snapshot5'') s = Inr (watch_state_reset_host_owned s, 5)"
  "parse_mutation demo_lib (demo_message t ''steps6'') =
     Inr \<lparr>occupied = True, revision = 6, change = WATCH_SYNC_PATH_STEPS 42\<rparr>"
  "parse_mutation demo_lib (demo_message t ''snapshot5'') = Inl EINVAL"
proof -
  have path: "copy_string \<lparr>tok_type = JSON_TOK_STRING, tok_text = ''steps''\<rparr> (zero_array 40) =
      Inr (''steps'' @ zero_array 35)"
    by code_simp
  have "cstr (''steps'' @ zero_array 35) = ''steps''" by code_simp
  with path show "parse_mutation demo_lib (demo_message t ''steps6'') =
     Inr \<lparr>occupied = True, revision = 6, change = WATCH_SYNC_PATH_STEPS 42\<rparr>"
    by (simp add: parse_mutation_def demo_lib_def table_lib_def demo_message_def find_member_def
        number_def parse_u64_def digit_computes parse_change_def parse_steps_def)
qed (simp_all add: parse_snapshot_def parse_mutation_def demo_lib_def table_lib_def
      demo_message_def find_member_def number_def parse_u64_def digit_computes)

text \<open>Witnesses: a synchroniser that awaits a snapshot, receives a mutation, then the snapshot.\<close>

definition demo_waiting :: watch_sync where
  "demo_waiting = watch_sync_connected watch_sync_init"

lemma wf_demo_waiting: "wf_sync demo_waiting"
  by (simp add: demo_waiting_def wf_sync_connected)

lemma view_demo_waiting: "sync_view demo_waiting = (0, True, Map.empty)"
  by (simp add: sync_view_def demo_waiting_def watch_sync_connected_def watch_sync_init_def)

lemma demo_message_type [simp]:
  "msg_type (demo_message t text) = t"
  "is_mutation (demo_message t text) \<longleftrightarrow> t \<in> {WATCH_MESSAGE_STATE_SET, WATCH_MESSAGE_STATE_PATCH}"
  by (simp_all add: is_mutation_def demo_message_def)

theorem sync_handle_refines_witness:
  "(case watch_sync_handle demo_lib demo_waiting watch_state_init
           (demo_message WATCH_MESSAGE_STATE_PATCH ''steps6'') of
      (result, sync', s') \<Rightarrow>
        result = WATCH_SYNC_BUFFERED \<and> s' = watch_state_init \<and>
        sync_view sync' = (0, True, [6 \<mapsto> WATCH_SYNC_PATH_STEPS 42]))"
  using sync_handle_refines [OF wf_demo_waiting, where J = demo_lib and s = watch_state_init
      and msg = "demo_message WATCH_MESSAGE_STATE_PATCH ''steps6''"]
  by (simp add: demo_parses view_demo_waiting mutation_spec_def WATCH_SYNC_BUFFER_CAPACITY_def
      split_beta prod_eq_iff)

theorem sync_error_atomic_witness:
  "\<exists>sync' s'. watch_sync_handle demo_lib demo_waiting watch_state_init
       (demo_message WATCH_MESSAGE_STATE_SET ''snapshot5'') = (WATCH_SYNC_ERROR, sync', s') \<and>
     s' = watch_state_init \<and> sync_view sync' = sync_view demo_waiting"
proof -
  have "watch_sync_handle demo_lib demo_waiting watch_state_init
      (demo_message WATCH_MESSAGE_STATE_SET ''snapshot5'') =
      (WATCH_SYNC_ERROR, demo_waiting, watch_state_init)"
    by (simp add: watch_sync_handle_def demo_parses)
  with sync_error_atomic [OF wf_demo_waiting this] show ?thesis by blast
qed

theorem sync_invariant_witness:
  "wf_sync (watch_sync_disconnected demo_waiting)"
  using sync_invariant [OF wf_demo_waiting wf_state_init, where J = demo_lib
      and msg = "demo_message WATCH_MESSAGE_PING []"] by blast

lemma snapshot_spec_empty:
  "snapshot_spec Map.empty n candidate answer \<longleftrightarrow>
     answer = (WATCH_SYNC_CHANGED, (n, False, Map.empty), candidate)"
proof -
  have "contiguous Map.empty n r \<longleftrightarrow> r = n" for r
    by (auto simp: contiguous_def intro: antisym not_less [THEN iffD1])
  moreover have "newer n Map.empty = Map.empty" for n by (simp add: newer_def)
  ultimately show ?thesis by (cases answer) (auto simp: snapshot_spec_def)
qed

end
