(* ===== verification/Host_Messages.thy ===== *)
theory Host_Messages
  imports Watch_Sync
begin

text \<open>
  What the messages of a host say, independently of the parsers of the watch: the data a host owns
  (\<open>docs/protocol.md\<close>), the changes that make its revisions, and relations between a JSON text, as
  the JSON library reads it, and the value it stands for. The theory shows that the parsers of
  \<open>watch_sync.c\<close> extract from such a message exactly what it says, whenever they accept it.
\<close>

section \<open>The data of the host\<close>

text \<open>
  The texts of a notification can be absent, and so can every member of the state. Numbers and
  texts are unbounded here; the limits are those of the watch.
\<close>

type_synonym host_note = "string option \<times> string option"

record host_data =
  hd_temperature :: "int option"
  hd_condition :: "string option"
  hd_title :: "string option"
  hd_playing :: "bool option"
  hd_steps :: "nat option"
  hd_notes :: "host_note list option"

text \<open>The changes; the last one is any change of a path this watch does not register.\<close>

datatype host_change =
    Set_temperature int
  | Set_condition string
  | Set_title string
  | Set_playing bool
  | Set_steps nat
  | Set_notes "host_note list"
  | Set_other string

fun host_apply :: "host_change \<Rightarrow> host_data \<Rightarrow> host_data" where
  "host_apply (Set_temperature t) d = d\<lparr>hd_temperature := Some t\<rparr>"
| "host_apply (Set_condition c) d = d\<lparr>hd_condition := Some c\<rparr>"
| "host_apply (Set_title t) d = d\<lparr>hd_title := Some t\<rparr>"
| "host_apply (Set_playing b) d = d\<lparr>hd_playing := Some b\<rparr>"
| "host_apply (Set_steps n) d = d\<lparr>hd_steps := Some n\<rparr>"
| "host_apply (Set_notes ns) d = d\<lparr>hd_notes := Some ns\<rparr>"
| "host_apply (Set_other p) d = d"

text \<open>The host's history: its data at revision 0 and the change that makes each later revision.\<close>

fun host_at :: "host_data \<Rightarrow> (nat \<Rightarrow> host_change) \<Rightarrow> nat \<Rightarrow> host_data" where
  "host_at d log 0 = d"
| "host_at d log (Suc n) = host_apply (log (Suc n)) (host_at d log n)"

section \<open>What the watch shows of it\<close>

text \<open>
  The notifications: the total up to 65535, the first four, the texts cut at 47 and 95
  characters, absent ones empty.
\<close>

definition list_shows :: "watch_notification_list \<Rightarrow> host_note list \<Rightarrow> bool" where
  "list_shows ns notes \<longleftrightarrow>
     unat (total_count ns) = min 65535 (length notes) \<and>
     unat (stored_count ns) = min 4 (length notes) \<and>
     (\<forall>i < min 4 (length notes).
        cstr (title (entries ns ! i)) = take 47 (case_option [] id (fst (notes ! i))) \<and>
        cstr (body (entries ns ! i)) = take 95 (case_option [] id (snd (notes ! i))))"

text \<open>
  The texts are cut at the size of their arrays, and a member the host does not have is shown as
  its placeholder. The playing flag is separate, because a tap on the watch changes it, too.
\<close>

definition shows_host :: "watch_state \<Rightarrow> host_data \<Rightarrow> bool" where
  "shows_host s d \<longleftrightarrow>
     sint (temperature_c s) = case_option 0 id (hd_temperature d) \<and>
     cstr (weather_condition s) = case_option ''Unavailable'' (take 31) (hd_condition d) \<and>
     cstr (music_title s) = case_option ''Nothing playing'' (take 63) (hd_title d) \<and>
     unat (steps s) = case_option 0 id (hd_steps d) \<and>
     list_shows (notifications s) (case_option [] id (hd_notes d))"

definition shows_playing :: "watch_state \<Rightarrow> host_data \<Rightarrow> bool" where
  "shows_playing s d \<longleftrightarrow> music_playing s = case_option False id (hd_playing d)"

section \<open>What a JSON text says\<close>

text \<open>
  An object whose keys are distinct, as the members it has. A text with an escape sequence can stand
  for any string and a number in another notation than plain decimals for any number: the watch
  refuses both.
\<close>

definition reads_object :: "json_lib \<Rightarrow> string \<Rightarrow> (string \<rightharpoonup> json_token) \<Rightarrow> bool" where
  "reads_object J s m \<longleftrightarrow>
     (\<exists>obj. json_obj_separate_parse_init J s = Some obj \<and> obj_complete obj \<and>
        distinct (map fst (obj_pairs obj)) \<and> m = map_of (obj_pairs obj))"

definition reads_text :: "json_token \<Rightarrow> string \<Rightarrow> bool" where
  "reads_text tok s \<longleftrightarrow>
     tok_type tok = JSON_TOK_STRING \<and> NUL \<notin> set (tok_text tok) \<and>
     (CHR 0x5C \<in> set (tok_text tok) \<or> tok_text tok = s)"

definition reads_nat :: "json_token \<Rightarrow> nat \<Rightarrow> bool" where
  "reads_nat tok n \<longleftrightarrow>
     tok_type tok = JSON_TOK_NUMBER \<and> (all_digits (tok_text tok) \<longrightarrow> decimal (tok_text tok) = n)"

definition reads_int :: "json_token \<Rightarrow> int \<Rightarrow> bool" where
  "reads_int tok i \<longleftrightarrow>
     tok_type tok = JSON_TOK_NUMBER \<and> (\<forall>j. signed_decimal (tok_text tok) = Some j \<longrightarrow> j = i)"

definition reads_flag :: "json_token \<Rightarrow> bool \<Rightarrow> bool" where
  "reads_flag tok b \<longleftrightarrow> tok_type tok = (if b then JSON_TOK_TRUE else JSON_TOK_FALSE)"

text \<open>The texts of a notification are the C strings the library hands out.\<close>

definition read_note :: "notification_json \<Rightarrow> host_note" where
  "read_note x = (map_option cstr (json_title x), map_option cstr (json_body x))"

definition reads_notes :: "json_lib \<Rightarrow> json_token \<Rightarrow> host_note list \<Rightarrow> bool" where
  "reads_notes J tok notes \<longleftrightarrow>
     tok_type tok = JSON_TOK_ARRAY_START \<and>
     (\<exists>arr. json_arr_separate_object_parse_init J (tok_text tok) = Some arr \<and> arr_complete arr \<and>
        notes = map read_note (arr_items arr))"

text \<open>An object of two members, each of which can be absent, as can the object.\<close>

definition reads_pair ::
    "json_lib \<Rightarrow> string \<Rightarrow> (json_token \<Rightarrow> 'a \<Rightarrow> bool) \<Rightarrow> string \<Rightarrow> (json_token \<Rightarrow> 'b \<Rightarrow> bool)
       \<Rightarrow> json_token option \<Rightarrow> 'a option \<Rightarrow> 'b option \<Rightarrow> bool"
where
  "reads_pair J k R k' R' tok x y \<longleftrightarrow>
     (case tok of
        None \<Rightarrow> x = None \<and> y = None
      | Some tok \<Rightarrow> tok_type tok = JSON_TOK_OBJECT_START \<and>
          (\<exists>m. reads_object J (tok_text tok) m \<and> rel_option R (m k) x \<and> rel_option R' (m k') y))"

definition reads_state :: "json_lib \<Rightarrow> json_token \<Rightarrow> host_data \<Rightarrow> bool" where
  "reads_state J tok d \<longleftrightarrow>
     tok_type tok = JSON_TOK_OBJECT_START \<and>
     (\<exists>m. reads_object J (tok_text tok) m \<and>
        reads_pair J ''temperature'' reads_int ''condition'' reads_text (m ''weather'')
          (hd_temperature d) (hd_condition d) \<and>
        reads_pair J ''title'' reads_text ''playing'' reads_flag (m ''music'')
          (hd_title d) (hd_playing d) \<and>
        rel_option reads_nat (m ''steps'') (hd_steps d) \<and>
        rel_option (reads_notes J) (m ''notifications'') (hd_notes d))"

fun path_of :: "host_change \<Rightarrow> string" where
  "path_of (Set_temperature t) = ''weather.temperature''"
| "path_of (Set_condition c) = ''weather.condition''"
| "path_of (Set_title t) = ''music.title''"
| "path_of (Set_playing b) = ''music.playing''"
| "path_of (Set_steps n) = ''steps''"
| "path_of (Set_notes ns) = ''notifications''"
| "path_of (Set_other p) = p"

fun reads_value :: "json_lib \<Rightarrow> json_token \<Rightarrow> host_change \<Rightarrow> bool" where
  "reads_value J tok (Set_temperature t) = reads_int tok t"
| "reads_value J tok (Set_condition c) = reads_text tok c"
| "reads_value J tok (Set_title t) = reads_text tok t"
| "reads_value J tok (Set_playing b) = reads_flag tok b"
| "reads_value J tok (Set_steps n) = reads_nat tok n"
| "reads_value J tok (Set_notes ns) = reads_notes J tok ns"
| "reads_value J tok (Set_other p) =
     (p \<notin> {''weather.temperature'', ''weather.condition'', ''music.title'', ''music.playing'',
           ''steps'', ''notifications''})"

text \<open>
  A genuine message tells the truth about a history: the change that made a revision, or the
  data at a revision. Messages of other types say nothing about the state.
\<close>

definition genuine ::
    "json_lib \<Rightarrow> host_data \<Rightarrow> (nat \<Rightarrow> host_change) \<Rightarrow> watch_protocol_message \<Rightarrow> bool" where
  "genuine J d log msg \<longleftrightarrow>
     (is_mutation msg \<longrightarrow>
        (\<exists>m path value number q. reads_object J (payload msg) m \<and>
           m ''path'' = Some path \<and> m ''value'' = Some value \<and> m ''revision'' = Some number \<and>
           reads_nat number q \<and> reads_text path (path_of (log q)) \<and> reads_value J value (log q))) \<and>
     (msg_type msg = WATCH_MESSAGE_SYNC_RESPONSE \<longrightarrow>
        (\<exists>m state number q. reads_object J (payload msg) m \<and>
           m ''state'' = Some state \<and> m ''revision'' = Some number \<and>
           reads_nat number q \<and> reads_state J state (host_at d log q)))"

section \<open>The parsers read what is said\<close>

lemma find_member_reads:
  assumes "reads_object J s m"
  shows "find_member J s k = (case m k of None \<Rightarrow> Inl ENOENT | Some tok \<Rightarrow> Inr tok)"
proof -
  have "find_member_loop obj k = (case map_of (obj_pairs obj) k of None \<Rightarrow> Inl ENOENT | Some tok \<Rightarrow> Inr tok)"
    if "obj_complete obj" for obj
    using that by (induction obj) auto
  with assms show ?thesis by (auto simp: reads_object_def find_member_def)
qed

lemma copy_string_reads:
  assumes "copy_string tok dst = Inr s" "reads_text tok t"
  shows "cstr s = t" "length t < length dst"
proof -
  have "CHR 0x5C \<notin> set (tok_text tok)"
    using assms(1) by (auto simp: copy_string_def Let_def split: if_splits)
  with assms(2) have "tok_text tok = t" "NUL \<notin> set (tok_text tok)" by (auto simp: reads_text_def)
  with copy_string_spec [OF assms(1)] show "cstr s = t" "length t < length dst" by simp_all
qed

lemma copy_string_take:
  "copy_string tok dst = Inr s \<Longrightarrow> reads_text tok t \<Longrightarrow> length dst = Suc n \<Longrightarrow> cstr s = take n t"
  using copy_string_reads [of tok dst s t] by simp

lemma parse_u64_reads: "parse_u64 tok = Inr v \<Longrightarrow> reads_nat tok n \<Longrightarrow> unat v = n"
  by (simp add: parse_u64_iff reads_nat_def)

lemma parse_steps_reads:
  assumes "parse_steps tok = Inr v" "reads_nat tok n"
  shows "unat v = n"
proof -
  obtain w where w: "parse_u64 tok = Inr w" "\<not> w > 0xFFFFFFFF" "v = ucast w"
    using assms(1) by (auto simp: parse_steps_def split: sum.splits if_splits)
  then have "unat w < 2 ^ 32" by (simp add: word_less_nat_alt not_less)
  then have "unat v = unat w"
    by (simp add: w(3) unsigned_ucast_eq take_bit_word_eq_self unsigned_take_bit_eq take_bit_nat_eq_self)
  with parse_u64_reads [OF w(1) assms(2)] show ?thesis by simp
qed

lemma parse_temperature_reads:
  assumes "parse_temperature tok = Inr v" "reads_int tok i"
  shows "sint v = i"
proof -
  obtain w where w: "parse_i64 tok = Inr w" "i16_range w" "v = ucast w"
    using assms(1) by (auto simp: parse_temperature_def split: sum.splits if_splits)
  have "(ucast :: i64 \<Rightarrow> i16) = scast" by (rule down_cast_same) (simp add: is_down)
  then have "v = scast w" using w(3) by (simp only:)
  then have "sint v = signed_take_bit 15 (sint w)" by (simp add: signed_scast_eq)
  then have "sint v = sint w" using w(2) by (simp add: signed_take_bit_int_eq_self i16_range_def)
  then show ?thesis
    using w(1) assms(2) by (auto simp: parse_i64_iff reads_int_def)
qed

lemma parse_flag_reads: "parse_flag tok = Inr v \<Longrightarrow> reads_flag tok b \<Longrightarrow> v = b"
  by (auto simp: parse_flag_def reads_flag_def split: if_splits)

subsection \<open>Notifications\<close>

text \<open>The list while it is filled: the slots behind the stored entries are still empty.\<close>

definition filled :: "watch_notification_list \<Rightarrow> host_note list \<Rightarrow> bool" where
  "filled ns notes \<longleftrightarrow>
     list_shows ns notes \<and> length (entries ns) = 4 \<and>
     (\<forall>n \<in> set (entries ns). length (title n) = Suc 47 \<and> length (body n) = Suc 95) \<and>
     (\<forall>i. min 4 (length notes) \<le> i \<and> i < 4 \<longrightarrow> entries ns ! i = zero_notification)"

lemma filled_zero: "filled zero_notification_list []"
  by (auto simp: filled_def list_shows_def zero_notification_list_def WATCH_NOTIFICATION_CAPACITY_def
      zero_notification_def zero_array_def)

lemma copy_optional_text:
  "length dst = Suc n \<Longrightarrow> cstr dst = [] \<Longrightarrow>
     cstr (copy_optional dst x) = take n (case_option [] id (map_option cstr x))"
  by (auto simp: copy_optional_def cstr_strncpy_terminated split: option.split)

lemma filled_store:
  assumes "filled ns notes"
  shows "filled (count_notification (store_notification item ns)) (notes @ [read_note item])"
proof -
  from assms have total: "unat (total_count ns) = min 65535 (length notes)"
    and stored: "unat (stored_count ns) = min 4 (length notes)"
    and len: "length (entries ns) = 4"
    and sizes: "\<forall>n \<in> set (entries ns). length (title n) = Suc 47 \<and> length (body n) = Suc 95"
    and shown: "\<forall>i < min 4 (length notes).
        cstr (title (entries ns ! i)) = take 47 (case_option [] id (fst (notes ! i))) \<and>
        cstr (body (entries ns ! i)) = take 95 (case_option [] id (snd (notes ! i)))"
    and free: "\<forall>i. min 4 (length notes) \<le> i \<and> i < 4 \<longrightarrow> entries ns ! i = zero_notification"
    by (simp_all add: filled_def list_shows_def)
  let ?ns = "store_notification item ns" and ?notes = "notes @ [read_note item]"
  have counted: "unat (total_count (count_notification m)) = min 65535 (Suc (length notes))"
    if "total_count m = total_count ns" for m
  proof (cases "total_count ns < 0xFFFF")
    case True
    then have "unat (total_count ns) < 65535" by (simp add: word_less_nat_alt)
    with True total that show ?thesis
      by (simp add: count_notification_def unat_word_ariths min_def split: if_splits)
  next
    case False
    then have "65535 \<le> unat (total_count ns)" by (simp add: word_less_nat_alt not_less)
    with False total that show ?thesis by (simp add: count_notification_def)
  qed
  have keeps: "entries (count_notification m) = entries m" "stored_count (count_notification m) = stored_count m" for m
    by (simp_all add: count_notification_def)
  have same_total: "total_count ?ns = total_count ns"
    by (simp add: store_notification_def Let_def)
  show ?thesis
  proof (cases "length notes < 4")
    case False
    then have "?ns = ns" using stored by (simp add: store_notification_def WATCH_NOTIFICATION_CAPACITY_def)
    with False counted [OF same_total] keeps stored len sizes shown free show ?thesis
      by (auto simp: filled_def list_shows_def nth_append)
  next
    case True
    let ?k = "length notes"
    have slot: "unat (stored_count ns) = ?k" using stored True by simp
    let ?new = "zero_notification\<lparr>title := copy_optional (title zero_notification) (json_title item),
        body := copy_optional (body zero_notification) (json_body item)\<rparr>"
    have zero: "entries ns ! ?k = zero_notification" using free True by simp
    have entries: "entries ?ns = (entries ns)[?k := ?new]"
      using True slot zero by (simp add: store_notification_def WATCH_NOTIFICATION_CAPACITY_def Let_def)
    have count: "unat (stored_count ?ns) = Suc ?k"
      using True slot
      by (simp add: store_notification_def WATCH_NOTIFICATION_CAPACITY_def Let_def unat_word_ariths)
    have new: "length (title ?new) = Suc 47" "length (body ?new) = Suc 95"
      "cstr (title ?new) = take 47 (case_option [] id (fst (read_note item)))"
      "cstr (body ?new) = take 95 (case_option [] id (snd (read_note item)))"
      by (auto simp: zero_notification_def read_note_def copy_optional_text)
         (auto simp: copy_optional_def split: option.split)
    show ?thesis
      unfolding filled_def list_shows_def
      using True counted [OF same_total] keeps count len sizes shown free new
      by (auto simp: entries nth_append nth_list_update less_Suc_eq
          dest!: set_update_subset_insert [THEN subsetD])
  qed
qed

lemma parse_notifications_loop_reads:
  "parse_notifications_loop arr ns = Inr ns' \<Longrightarrow> filled ns hs \<Longrightarrow>
     filled ns' (hs @ map read_note (arr_items arr))"
proof (induction arr arbitrary: ns hs)
  case (Arr_Object item arr)
  from Arr_Object.IH [OF _ filled_store [OF Arr_Object.prems(2)]] Arr_Object.prems(1)
  show ?case by simp
qed simp_all

lemma parse_notifications_reads:
  assumes "parse_notifications J tok = Inr ns" "reads_notes J tok notes"
  shows "list_shows ns notes"
proof -
  obtain arr where arr: "json_arr_separate_object_parse_init J (tok_text tok) = Some arr"
      "notes = map read_note (arr_items arr)"
    using assms(2) by (auto simp: reads_notes_def)
  with assms have "parse_notifications_loop arr zero_notification_list = Inr ns"
    by (auto simp: parse_notifications_def split: if_splits)
  from parse_notifications_loop_reads [OF this filled_zero] show ?thesis
    by (simp add: filled_def arr(2))
qed

subsection \<open>Snapshots\<close>

text \<open>What one member of the state does to the candidate.\<close>

definition parse_member :: "json_lib \<Rightarrow> string \<Rightarrow> json_token \<Rightarrow> watch_state \<Rightarrow> errno + watch_state" where
  "parse_member J key value s =
     (if key = ''weather'' then parse_weather J value s
      else if key = ''music'' then parse_music J value s
      else if key = ''steps'' then map_sum id (\<lambda>n. s\<lparr>steps := n\<rparr>) (parse_steps value)
      else if key = ''notifications'' then
        map_sum id (\<lambda>ns. s\<lparr>notifications := ns\<rparr>) (parse_notifications J value)
      else Inr s)"

lemma parse_snapshot_loop_member:
  "parse_snapshot_loop J (Obj_Pair key value obj) s = Inr s' \<longleftrightarrow>
     (\<exists>s1. parse_member J key value s = Inr s1 \<and> parse_snapshot_loop J obj s1 = Inr s')"
  by (auto simp: parse_member_def split: sum.split)

text \<open>
  A part \<open>P\<close> of the state that only the member \<open>K\<close> changes: the loop leaves it as that member
  makes it.
\<close>

definition only_member :: "json_lib \<Rightarrow> string \<Rightarrow> (watch_state \<Rightarrow> 'p) \<Rightarrow> bool" where
  "only_member J K P \<longleftrightarrow>
     (\<forall>k v s s1. k \<noteq> K \<longrightarrow> parse_member J k v s = Inr s1 \<longrightarrow> P s1 = P s)"

lemma parse_snapshot_loop_part:
  assumes other: "only_member J K P"
  shows "parse_snapshot_loop J obj s = Inr s' \<Longrightarrow> distinct (map fst (obj_pairs obj)) \<Longrightarrow>
    (case map_of (obj_pairs obj) K of
       None \<Rightarrow> P s' = P s
     | Some tok \<Rightarrow> \<exists>s0 s1. P s0 = P s \<and> parse_member J K tok s0 = Inr s1 \<and> P s' = P s1)"
proof (induction obj arbitrary: s)
  case (Obj_Pair k v obj)
  from Obj_Pair.prems(1) obtain s1 where s1: "parse_member J k v s = Inr s1"
      "parse_snapshot_loop J obj s1 = Inr s'"
    unfolding parse_snapshot_loop_member by blast
  note IH = Obj_Pair.IH [OF s1(2)]
  show ?case
  proof (cases "k = K")
    case True
    with Obj_Pair.prems(2) have "map_of (obj_pairs obj) K = None" by (auto simp: map_of_eq_None_iff)
    with IH Obj_Pair.prems(2) s1(1) True show ?thesis by auto
  next
    case False
    moreover have "P s1 = P s" using other False s1(1) by (simp add: only_member_def)
    ultimately show ?thesis using IH Obj_Pair.prems(2)
      by (auto simp del: map_of_eq_Some_iff split: option.splits)
  qed
qed simp_all

lemma only_members:
  "only_member J ''weather'' (\<lambda>s. (temperature_c s, weather_condition s))"
  "only_member J ''music'' (\<lambda>s. (music_title s, music_playing s))"
  "only_member J ''steps'' watch_state.steps"
  "only_member J ''notifications'' notifications"
  by (auto simp: only_member_def parse_member_def parse_weather_def parse_music_def map_sum_def
      split: if_splits sum.splits)

lemma parse_weather_reads:
  assumes "parse_weather J tok s = Inr s'"
    and "reads_pair J ''temperature'' reads_int ''condition'' reads_text (Some tok) t c"
    and "length (weather_condition s) = 32"
    and "sint (temperature_c s) = 0" "cstr (weather_condition s) = ''Unavailable''"
  shows "sint (temperature_c s') = case_option 0 id t"
    "cstr (weather_condition s') = case_option ''Unavailable'' (take 31) c"
proof -
  obtain m where m: "reads_object J (tok_text tok) m" and object: "tok_type tok = JSON_TOK_OBJECT_START"
    and t: "rel_option reads_int (m ''temperature'') t" and c: "rel_option reads_text (m ''condition'') c"
    using assms(2) by (auto simp: reads_pair_def)
  note find = find_member_reads [OF m]
  show "sint (temperature_c s') = case_option 0 id t"
    using assms(1,4) t object
    by (auto simp: parse_weather_def find option_rel_Some1 option_rel_Some2 parse_temperature_reads
        split: option.splits sum.splits)
  show "cstr (weather_condition s') = case_option ''Unavailable'' (take 31) c"
    using assms(1,3,5) c object
    by (auto simp: parse_weather_def find option_rel_Some1 option_rel_Some2
        intro!: copy_string_take split: option.splits sum.splits)
qed

lemma parse_music_reads:
  assumes "parse_music J tok s = Inr s'"
    and "reads_pair J ''title'' reads_text ''playing'' reads_flag (Some tok) t b"
    and "length (music_title s) = 64"
    and "cstr (music_title s) = ''Nothing playing''" "\<not> music_playing s"
  shows "cstr (music_title s') = case_option ''Nothing playing'' (take 63) t"
    "music_playing s' = case_option False id b"
proof -
  obtain m where m: "reads_object J (tok_text tok) m" and object: "tok_type tok = JSON_TOK_OBJECT_START"
    and t: "rel_option reads_text (m ''title'') t" and b: "rel_option reads_flag (m ''playing'') b"
    using assms(2) by (auto simp: reads_pair_def)
  note find = find_member_reads [OF m]
  show "cstr (music_title s') = case_option ''Nothing playing'' (take 63) t"
    using assms(1,3,4) t object
    by (auto simp: parse_music_def find option_rel_Some1 option_rel_Some2
        intro!: copy_string_take split: option.splits sum.splits)
  show "music_playing s' = case_option False id b"
    using assms(1,5) b object
    by (auto simp: parse_music_def find option_rel_Some1 option_rel_Some2 dest: parse_flag_reads
        split: option.splits sum.splits)
qed

text \<open>A snapshot that is accepted replaces everything the host owns by what it says.\<close>

lemma parse_snapshot_reads:
  assumes wf: "wf_state s" and parsed: "parse_snapshot J msg s = Inr (s', n)"
    and object: "reads_object J (payload msg) m" "m ''state'' = Some tok" "m ''revision'' = Some num"
    and said: "reads_nat num q" "reads_state J tok d"
  shows "unat n = q" "shows_host s' d" "shows_playing s' d"
proof -
  let ?r = "watch_state_reset_host_owned s"
  note find = find_member_reads [OF object(1)]
  obtain obj where obj: "json_obj_separate_parse_init J (tok_text tok) = Some obj"
    and loop: "parse_snapshot_loop J obj ?r = Inr s'" and n: "parse_u64 num = Inr n"
    using parsed by (auto simp: parse_snapshot_def find object(2,3) split: sum.splits option.splits if_splits)
  show "unat n = q" by (rule parse_u64_reads [OF n said(1)])
  from said(2) obj have dist: "distinct (map fst (obj_pairs obj))"
    and weather: "reads_pair J ''temperature'' reads_int ''condition'' reads_text
        (map_of (obj_pairs obj) ''weather'') (hd_temperature d) (hd_condition d)"
    and music: "reads_pair J ''title'' reads_text ''playing'' reads_flag
        (map_of (obj_pairs obj) ''music'') (hd_title d) (hd_playing d)"
    and steps: "rel_option reads_nat (map_of (obj_pairs obj) ''steps'') (hd_steps d)"
    and listed: "rel_option (reads_notes J) (map_of (obj_pairs obj) ''notifications'') (hd_notes d)"
    by (auto simp: reads_state_def reads_object_def)
  note part = parse_snapshot_loop_part [OF _ loop dist]
  from wf have reset: "length (weather_condition ?r) = 32" "length (music_title ?r) = 64"
      "temperature_c ?r = 0" "cstr (weather_condition ?r) = ''Unavailable''"
      "cstr (music_title ?r) = ''Nothing playing''" "\<not> music_playing ?r" "watch_state.steps ?r = 0"
      "notifications ?r = zero_notification_list"
    by (auto simp: watch_state_reset_host_owned_def wf_state_def clib_simps dest: cstring_array_length)
  have "sint (temperature_c s') = case_option 0 id (hd_temperature d) \<and>
      cstr (weather_condition s') = case_option ''Unavailable'' (take 31) (hd_condition d)"
  proof (cases "map_of (obj_pairs obj) ''weather''")
    case None
    with part [OF only_members(1)]
    show ?thesis using weather reset by (simp add: reads_pair_def)
  next
    case (Some tok)
    with part [OF only_members(1)]
    obtain s0 s1 where "temperature_c s0 = 0" "weather_condition s0 = weather_condition ?r"
      "parse_weather J tok s0 = Inr s1" "temperature_c s' = temperature_c s1"
      "weather_condition s' = weather_condition s1"
      by (auto simp: parse_member_def reset)
    with parse_weather_reads [of J tok s0 s1] weather Some reset show ?thesis by simp
  qed
  moreover have "cstr (music_title s') = case_option ''Nothing playing'' (take 63) (hd_title d) \<and>
      music_playing s' = case_option False id (hd_playing d)"
  proof (cases "map_of (obj_pairs obj) ''music''")
    case None
    with part [OF only_members(2)]
    show ?thesis using music reset by (simp add: reads_pair_def)
  next
    case (Some tok)
    with part [OF only_members(2)]
    obtain s0 s1 where "music_title s0 = music_title ?r" "music_playing s0 = music_playing ?r"
      "parse_music J tok s0 = Inr s1" "music_title s' = music_title s1" "music_playing s' = music_playing s1"
      by (auto simp: parse_member_def)
    with parse_music_reads [of J tok s0 s1] music Some reset show ?thesis by simp
  qed
  moreover have "unat (watch_state.steps s') = case_option 0 id (hd_steps d)"
    using part [OF only_members(3)] steps reset(7)
    by (auto simp: option_rel_Some1 option_rel_Some2 parse_member_def map_sum_def dest: parse_steps_reads
        split: option.splits sum.splits)
  moreover have "list_shows (notifications s') (case_option [] id (hd_notes d))"
    using part [OF only_members(4)] listed reset(8) filled_zero
    by (auto simp: option_rel_Some1 option_rel_Some2 parse_member_def map_sum_def filled_def
        dest: parse_notifications_reads split: option.splits sum.splits)
  ultimately show "shows_host s' d" "shows_playing s' d"
    by (simp_all add: shows_host_def shows_playing_def)
qed

subsection \<open>Changes\<close>

text \<open>A parsed change that stands for a change of the host.\<close>

fun implements :: "watch_sync_change \<Rightarrow> host_change \<Rightarrow> bool" where
  "implements (WATCH_SYNC_PATH_TEMPERATURE v) (Set_temperature t) = (sint v = t)"
| "implements (WATCH_SYNC_PATH_WEATHER_CONDITION s) (Set_condition c) = (cstr s = c)"
| "implements (WATCH_SYNC_PATH_MUSIC_TITLE s) (Set_title t) = (cstr s = t)"
| "implements (WATCH_SYNC_PATH_MUSIC_PLAYING v) (Set_playing b) = (v = b)"
| "implements (WATCH_SYNC_PATH_STEPS v) (Set_steps n) = (unat v = n)"
| "implements (WATCH_SYNC_PATH_NOTIFICATIONS ns) (Set_notes hs) = list_shows ns hs"
| "implements _ _ = False"

lemma parse_change_reads:
  assumes "parse_change J (path_of h) type tok = Inr c" "reads_value J tok h"
  shows "implements c h"
  using assms
  by (cases h)
     (auto simp: parse_change_def split: sum.splits if_splits
        intro: parse_temperature_reads copy_string_reads(1) parse_steps_reads parse_notifications_reads
        dest: parse_flag_reads)

text \<open>A change that is accepted is the one the message says, with its revision.\<close>

lemma parse_mutation_reads:
  assumes parsed: "parse_mutation J msg = Inr mut"
    and object: "reads_object J (payload msg) m" "m ''path'' = Some path" "m ''value'' = Some tok"
      "m ''revision'' = Some num"
    and said: "reads_nat num q" "reads_text path (path_of h)" "reads_value J tok h"
  shows "unat (revision mut) = q" "implements (change mut) h"
proof -
  note find = find_member_reads [OF object(1)]
  obtain p n c where p: "copy_string path (zero_array 40) = Inr p" and n: "parse_u64 num = Inr n"
    and c: "parse_change J (cstr p) (msg_type msg) tok = Inr c"
    and mut: "mut = \<lparr>occupied = True, revision = n, change = c\<rparr>"
    using parsed by (auto simp: parse_mutation_def find object(2-4) split: sum.splits)
  show "unat (revision mut) = q" using parse_u64_reads [OF n said(1)] by (simp add: mut)
  have "cstr p = path_of h" by (rule copy_string_reads(1) [OF p said(2)])
  with c show "implements (change mut) h" by (simp add: mut parse_change_reads [OF _ said(3)])
qed

lemma shows_apply:
  assumes "wf_state s" "implements c h"
  shows "shows_host s d \<Longrightarrow> shows_host (apply_change c s) (host_apply h d)"
    "shows_playing s d \<Longrightarrow> shows_playing (apply_change c s) (host_apply h d)"
    "h = Set_playing b \<Longrightarrow> shows_playing (apply_change c s) (host_apply h d)"
proof -
  from assms(1) have "length (weather_condition s) = Suc 31" "length (music_title s) = Suc 63"
    by (auto simp: wf_state_def dest: cstring_array_length)
  then show "shows_host s d \<Longrightarrow> shows_host (apply_change c s) (host_apply h d)"
    "shows_playing s d \<Longrightarrow> shows_playing (apply_change c s) (host_apply h d)"
    "h = Set_playing b \<Longrightarrow> shows_playing (apply_change c s) (host_apply h d)"
    using assms(2)
    by (cases c; cases h; simp add: shows_host_def shows_playing_def cstr_strncpy_terminated)+
qed

text \<open>Only one kind of change concerns the playing flag.\<close>

fun sets_playing :: "host_change \<Rightarrow> bool" where
  "sets_playing (Set_playing b) = True"
| "sets_playing _ = False"

lemma playing_unchanged: "\<not> sets_playing h \<Longrightarrow> hd_playing (host_apply h d) = hd_playing d"
  by (cases h) simp_all

end
