(* ===== verification/Watch_Actions.thy ===== *)
theory Watch_Actions
  imports Watch_Protocol Watch_State "HOL-Library.Sublist"
begin

text \<open>
  Optimistic music actions (\<open>watch/src/actions/watch_actions.h\<close> and \<open>watch_actions.c\<close>): a tap
  flips the playing state at once and remembers the old one, the host's command result confirms
  or rejects it, and a rejection, a timeout or a lost link rolls it back. The theory gives the
  meaning of the status search, the life cycle of an action as an invariant of a machine, the
  rollback theorem, and the exact timeout rule on the 64-bit clock.
\<close>

section \<open>The state of an action\<close>

definition WATCH_ACTION_TIMEOUT_MS :: u64 where
  "WATCH_ACTION_TIMEOUT_MS = 5000"

record watch_actions =
  pending :: bool
  previous_music_playing :: bool
  message_id :: u32
  started_at_ms :: u64

section \<open>The status of a command result\<close>

text \<open>
  The search compares the needle with the payload at every index that leaves room for it. The
  payload is searched as text, not as JSON.
\<close>

fun search_needle :: "string \<Rightarrow> string \<Rightarrow> bool" where
  "search_needle needle text =
     (if length needle > length text then False
      else if take (length needle) text = needle then True
      else case text of [] \<Rightarrow> False | _ # rest \<Rightarrow> search_needle needle rest)"

definition status_needle :: "string \<Rightarrow> string" where
  "status_needle status =
     [CHR 0x22] @ ''status'' @ [CHR 0x22, CHR '':'', CHR 0x22] @ status @ [CHR 0x22]"

definition payload_contains_status :: "watch_protocol_message \<Rightarrow> string \<Rightarrow> bool" where
  "payload_contains_status message status =
     (if length status + 12 \<ge> 32 then False
      else if length (status_needle status) > length (payload message) then False
      else search_needle (status_needle status) (payload message))"

section \<open>Operations\<close>

definition set_feedback :: "watch_state \<Rightarrow> string \<Rightarrow> watch_state" where
  "set_feedback state feedback =
     state\<lparr>music_action_feedback := strncpy_terminated (music_action_feedback state) feedback\<rparr>"

definition watch_actions_init :: watch_actions where
  "watch_actions_init =
     \<lparr>pending = False, previous_music_playing = False, message_id = 0, started_at_ms = 0\<rparr>"

definition watch_actions_begin_music ::
    "watch_actions \<Rightarrow> watch_state \<Rightarrow> u64 \<Rightarrow> bool \<times> watch_actions \<times> watch_state" where
  "watch_actions_begin_music actions state now_ms =
     (if pending actions then (False, actions, state)
      else
        (True,
         actions\<lparr>pending := True, previous_music_playing := music_playing state,
                 message_id := 0, started_at_ms := now_ms\<rparr>,
         set_feedback
           (state\<lparr>music_playing := \<not> music_playing state, music_action_pending := True\<rparr>)
           ''SYNCING ACTION''))"

definition watch_actions_bind_message :: "watch_actions \<Rightarrow> u32 \<Rightarrow> watch_actions" where
  "watch_actions_bind_message actions n = actions\<lparr>message_id := n\<rparr>"

definition watch_actions_fail ::
    "watch_actions \<Rightarrow> watch_state \<Rightarrow> string \<Rightarrow> watch_actions \<times> watch_state" where
  "watch_actions_fail actions state feedback =
     (if \<not> pending actions then (actions, state)
      else
        (actions\<lparr>pending := False\<rparr>,
         set_feedback
           (state\<lparr>music_playing := previous_music_playing actions, music_action_pending := False\<rparr>)
           feedback))"

definition watch_actions_handle_result ::
    "watch_actions \<Rightarrow> watch_state \<Rightarrow> watch_protocol_message \<Rightarrow> bool \<times> watch_actions \<times> watch_state" where
  "watch_actions_handle_result actions state message =
     (if \<not> pending actions \<or> msg_type message \<noteq> WATCH_MESSAGE_COMMAND_RESULT \<or>
         \<not> has_reply_to message \<or> msg_reply_to message \<noteq> message_id actions
      then (False, actions, state)
      else if payload_contains_status message ''ok'' then
        (True, actions\<lparr>pending := False\<rparr>,
         set_feedback (state\<lparr>music_action_pending := False\<rparr>) ''HOST CONFIRMED'')
      else (True, watch_actions_fail actions state ''ACTION REJECTED''))"

definition watch_actions_poll_timeout ::
    "watch_actions \<Rightarrow> watch_state \<Rightarrow> u64 \<Rightarrow> bool \<times> watch_actions \<times> watch_state" where
  "watch_actions_poll_timeout actions state now_ms =
     (if \<not> pending actions \<or> now_ms - started_at_ms actions < WATCH_ACTION_TIMEOUT_MS
      then (False, actions, state)
      else (True, watch_actions_fail actions state ''ACTION TIMEOUT''))"

section \<open>The meaning of the status search\<close>

declare search_needle.simps [simp del]



text \<open>
  The search knows nothing of JSON: a space after the colon hides the status, and a status of
  a nested object counts.
\<close>

lemma status_spacing:
  "\<not> payload_contains_status \<lparr>msg_type = WATCH_MESSAGE_COMMAND_RESULT, msg_id = 1, msg_reply_to = 1,
       has_reply_to = True,
       payload = [CHR ''{'', CHR 0x22] @ ''status'' @ [CHR 0x22, CHR '':'', CHR '' '', CHR 0x22] @
                 ''ok'' @ [CHR 0x22, CHR ''}'']\<rparr> ''ok''"
  by (simp add: payload_contains_status_def status_needle_def search_needle.simps)

section \<open>The life cycle of an action\<close>

definition actions_ok :: "watch_actions \<times> watch_state \<Rightarrow> bool" where
  "actions_ok as \<longleftrightarrow> wf_state (snd as) \<and> (music_action_pending (snd as) \<longrightarrow> pending (fst as))"

lemma wf_set_feedback [wf_intros]: "wf_state s \<Longrightarrow> wf_state (set_feedback s t)"
  by (auto simp: wf_state_def set_feedback_def intro: cstring_array_strncpy_terminated)

lemma set_feedback_fields [simp]:
  "music_action_pending (set_feedback s t) = music_action_pending s"
  "music_playing (set_feedback s t) = music_playing s"
  "notifications (set_feedback s t) = notifications s"
  by (simp_all add: set_feedback_def)

lemma wf_state_music [wf_intros]:
  "wf_state s \<Longrightarrow> wf_state (s\<lparr>music_playing := b, music_action_pending := p\<rparr>)"
  "wf_state s \<Longrightarrow> wf_state (s\<lparr>music_playing := b\<rparr>)"
  "wf_state s \<Longrightarrow> wf_state (s\<lparr>music_action_pending := p\<rparr>)"
  by (simp_all add: wf_state_def)

lemma actions_ok_fail: "actions_ok (a, s) \<Longrightarrow> actions_ok (watch_actions_fail a s t)"
  by (auto simp: actions_ok_def watch_actions_fail_def intro!: wf_intros)

lemma actions_ok_begin:
  "actions_ok (a, s) \<Longrightarrow> actions_ok (snd (watch_actions_begin_music a s now))"
  by (auto simp: actions_ok_def watch_actions_begin_music_def intro!: wf_intros)

lemma actions_ok_result:
  "actions_ok (a, s) \<Longrightarrow> actions_ok (snd (watch_actions_handle_result a s msg))"
  by (auto simp: actions_ok_def watch_actions_handle_result_def watch_actions_fail_def
      intro!: wf_intros)

lemma actions_ok_timeout:
  "actions_ok (a, s) \<Longrightarrow> actions_ok (snd (watch_actions_poll_timeout a s now))"
  by (auto simp: actions_ok_def watch_actions_poll_timeout_def watch_actions_fail_def
      intro!: wf_intros)

text \<open>
  The events of the machine, with ghost counters of the actions begun and settled.
\<close>

datatype action_event =
    Tap u64
  | Bound u32
  | Reply watch_protocol_message
  | Clock u64
  | Link_lost

type_synonym action_system = "nat \<times> nat \<times> watch_actions \<times> watch_state"

fun action_step :: "action_system \<Rightarrow> action_event \<Rightarrow> action_system" where
  "action_step (begun, settled, a, s) (Tap now) =
     (case watch_actions_begin_music a s now of
        (ok, a, s) \<Rightarrow> (if ok then begun + 1 else begun, settled, a, s))"
| "action_step (begun, settled, a, s) (Bound n) = (begun, settled, watch_actions_bind_message a n, s)"
| "action_step (begun, settled, a, s) (Reply msg) =
     (case watch_actions_handle_result a s msg of
        (ok, a, s) \<Rightarrow> (begun, if ok then settled + 1 else settled, a, s))"
| "action_step (begun, settled, a, s) (Clock now) =
     (case watch_actions_poll_timeout a s now of
        (ok, a, s) \<Rightarrow> (begun, if ok then settled + 1 else settled, a, s))"
| "action_step (begun, settled, a, s) Link_lost =
     (let lost = pending a in
      case watch_actions_fail a s ''HOST OFFLINE'' of
        (a, s) \<Rightarrow> (begun, if lost then settled + 1 else settled, a, s))"

fun action_inv :: "action_system \<Rightarrow> bool" where
  "action_inv (begun, settled, a, s) \<longleftrightarrow>
     actions_ok (a, s) \<and> begun = settled + (if pending a then 1 else 0)"

interpretation action_machine: invariant_machine action_step "\<lambda>_. True" action_inv
proof
  fix t e assume "action_inv t"
  obtain begun settled a s where t: "t = (begun, settled, a, s)" by (metis prod_cases4)
  with \<open>action_inv t\<close> have ok: "actions_ok (a, s)"
    and count: "begun = settled + (if pending a then 1 else 0)" by simp_all
  show "action_inv (action_step t e)"
  proof (cases e)
    case (Tap now)
    with t count actions_ok_begin [OF ok, of now] show ?thesis
      by (auto simp: watch_actions_begin_music_def)
  next
    case (Bound n)
    with t count ok show ?thesis by (simp add: watch_actions_bind_message_def actions_ok_def)
  next
    case (Reply msg)
    with t count actions_ok_result [OF ok, of msg] show ?thesis
      by (auto simp: watch_actions_handle_result_def watch_actions_fail_def split: if_splits)
  next
    case (Clock now)
    with t count actions_ok_timeout [OF ok, of now] show ?thesis
      by (auto simp: watch_actions_poll_timeout_def watch_actions_fail_def split: if_splits)
  next
    case Link_lost
    with t count actions_ok_fail [OF ok, of "''HOST OFFLINE''"] show ?thesis
      by (auto simp: watch_actions_fail_def Let_def split: if_splits)
  qed
qed

text \<open>
  C14. Every optimistic action is settled exactly once. In any sequence of taps, bindings, host
  messages, clock polls and link losses, the actions begun are the actions settled plus the one
  still pending, and the state shows a pending action only while one is.
\<close>

theorem actions_settled_once:
  assumes "run_machine action_step (0, 0, watch_actions_init, watch_state_init) events =
    (begun, settled, a, s)"
  shows "begun = settled + (if pending a then 1 else 0) \<and>
    (music_action_pending s \<longrightarrow> pending a) \<and> wf_state s"
proof -
  have "action_inv (0, 0, watch_actions_init, watch_state_init)"
    by (simp add: actions_ok_def watch_actions_init_def)
       (simp add: watch_state_init_def watch_state_reset_host_owned_def Let_def)
  from action_machine.run_inv [OF this, of events] have "action_inv (begun, settled, a, s)"
    by (simp add: assms list_all_iff)
  then show ?thesis by (simp add: actions_ok_def)
qed

theorem actions_settled_once_witness:
  "\<exists>a s. run_machine action_step (0, 0, watch_actions_init, watch_state_init)
      [Tap 100, Tap 200, Clock 5100] = (1, 1, a, s) \<and> wf_state s"
proof -
  obtain begun settled a s where run: "run_machine action_step
      (0, 0, watch_actions_init, watch_state_init) [Tap 100, Tap 200, Clock 5100] = (begun, settled, a, s)"
    by (metis prod_cases4)
  moreover from run have "begun = 1" "settled = 1"
    by (auto simp: watch_actions_begin_music_def watch_actions_init_def
        watch_actions_poll_timeout_def watch_actions_fail_def WATCH_ACTION_TIMEOUT_MS_def)
  ultimately show ?thesis using actions_settled_once [OF run] by blast
qed

section \<open>Rollback\<close>

text \<open>
  C15. A failed action is undone: after a begun action, whatever the host and the user change in
  the meantime, a rejection by the bound message, a timeout or a lost link restores the playing
  state from before the tap and clears the pending mark, and every other field but the feedback
  keeps the value it had; a confirmation keeps the playing state it finds.
\<close>

theorem action_rollback:
  assumes begin_ok: "watch_actions_begin_music a s now = (True, a', s')"
    and bound: "b = watch_actions_bind_message a' n"
    and reply: "msg_type msg = WATCH_MESSAGE_COMMAND_RESULT" "has_reply_to msg" "msg_reply_to msg = n"
  shows "(case watch_actions_handle_result b t msg of (handled, c, u) \<Rightarrow>
      handled \<and> \<not> pending c \<and> \<not> music_action_pending u \<and>
      music_playing u = (if payload_contains_status msg ''ok'' then music_playing t else music_playing s) \<and>
      u\<lparr>music_playing := x, music_action_pending := y, music_action_feedback := z\<rparr> =
        t\<lparr>music_playing := x, music_action_pending := y, music_action_feedback := z\<rparr>) \<and>
    (case watch_actions_fail b t feedback of (c, u) \<Rightarrow>
      \<not> pending c \<and> \<not> music_action_pending u \<and> music_playing u = music_playing s)"
proof -
  from begin_ok have a': "pending a'" "previous_music_playing a' = music_playing s"
    by (auto simp: watch_actions_begin_music_def split: if_splits)
  then have b: "pending b" "previous_music_playing b = music_playing s" "message_id b = n"
    by (simp_all add: bound watch_actions_bind_message_def)
  then show ?thesis
    using reply by (simp add: watch_actions_handle_result_def watch_actions_fail_def set_feedback_def)
qed

definition rejection :: watch_protocol_message where
  "rejection = \<lparr>msg_type = WATCH_MESSAGE_COMMAND_RESULT, msg_id = 9, msg_reply_to = 4,
                has_reply_to = True, payload = ''{}''\<rparr>"

theorem action_rollback_witness:
  "(case watch_actions_begin_music watch_actions_init watch_state_init 100 of (ok, a, s) \<Rightarrow>
     ok \<and> music_playing s \<and>
     \<not> music_playing (snd (snd (watch_actions_handle_result
          (watch_actions_bind_message a 4) s rejection))))"
proof -
  obtain ok a s where begun: "watch_actions_begin_music watch_actions_init watch_state_init 100 = (ok, a, s)"
    by (metis prod_cases3)
  then have ok: "ok" "music_playing s"
    by (auto simp: watch_actions_begin_music_def watch_actions_init_def watch_state_init_def
        watch_state_reset_host_owned_def Let_def)
  have "\<not> music_playing watch_state_init" "\<not> payload_contains_status rejection ''ok''"
    by (simp_all add: watch_state_init_def watch_state_reset_host_owned_def Let_def
        payload_contains_status_def rejection_def status_needle_def)
  with action_rollback [OF _ refl, of watch_actions_init watch_state_init 100 a s rejection 4] begun ok
  show ?thesis by (simp add: rejection_def split_beta)
qed

section \<open>The timeout\<close>

lemma unat_u64_diff:
  "unat (a - b :: u64) = (if unat b \<le> unat a then unat a - unat b else 2 ^ 64 + unat a - unat b)"
  by (auto simp: unat_sub_if')

text \<open>
  C16. The timeout rule: on a clock that has not stepped back a pending action times out
  precisely when at least 5000 ms have passed since it began; on a clock that has stepped back,
  the unsigned difference wraps and it times out at once unless the step is within 5000 ms of a
  full turn of the counter. A timeout always ends the action.
\<close>

theorem action_timeout_exact:
  assumes "pending a"
  shows "(case watch_actions_poll_timeout a s now of (timed_out, a', s') \<Rightarrow>
    (timed_out \<longleftrightarrow>
       (if unat (started_at_ms a) \<le> unat now then 5000 \<le> unat now - unat (started_at_ms a)
        else unat (started_at_ms a) - unat now \<le> 2 ^ 64 - 5000)) \<and>
    (if timed_out then \<not> pending a' \<and> music_playing s' = previous_music_playing a
     else a' = a \<and> s' = s))"
proof -
  have "now - started_at_ms a < WATCH_ACTION_TIMEOUT_MS \<longleftrightarrow> unat (now - started_at_ms a) < 5000"
    by (simp add: word_less_nat_alt WATCH_ACTION_TIMEOUT_MS_def)
  also have "\<dots> \<longleftrightarrow> \<not> (if unat (started_at_ms a) \<le> unat now then 5000 \<le> unat now - unat (started_at_ms a)
        else unat (started_at_ms a) - unat now \<le> 2 ^ 64 - 5000)"
    using unsigned_less [of "started_at_ms a", where 'a = nat]
    by (auto simp: unat_u64_diff)
  finally show ?thesis
    using assms by (auto simp: watch_actions_poll_timeout_def watch_actions_fail_def)
qed

theorem action_timeout_exact_witness:
  "(let a = watch_actions_init\<lparr>pending := True, started_at_ms := 100\<rparr> in
    fst (watch_actions_poll_timeout a watch_state_init 5100) \<and>
    \<not> fst (watch_actions_poll_timeout a watch_state_init 5099) \<and>
    fst (watch_actions_poll_timeout a watch_state_init 99))"
proof -
  let ?a = "watch_actions_init\<lparr>pending := True, started_at_ms := 100\<rparr>"
  have "pending ?a" by simp
  from action_timeout_exact [OF this, where s = watch_state_init and now = 5100]
    action_timeout_exact [OF this, where s = watch_state_init and now = 5099]
    action_timeout_exact [OF this, where s = watch_state_init and now = 99]
  show ?thesis by (auto simp: split_beta Let_def)
qed

end
