(* ===== verification/Host_Consistency.thy ===== *)
theory Host_Consistency
  imports Host_Messages Watch_Actions
begin

text \<open>
  What the user sees of the host: a system of the synchroniser, the optimistic actions and the
  watch's state, driven by genuine messages in any order, reconnections, browsing, taps and their
  outcomes. Whatever the network loses, repeats or reorders, the watch shows the host's data at the
  revision it reports; the playing flag is the one exception, which local actions override.
\<close>

section \<open>The system\<close>

text \<open>
  The last three components are ghosts. \<open>adopted\<close>: a snapshot has been adopted; before the first one
  the watch shows placeholders. \<open>overridden\<close>: a tap or a rollback has changed the playing flag
  and the host has not set it since. \<open>before_tap\<close>: what \<open>overridden\<close> was at the last tap, as long as
  the host has not set the flag since.
\<close>

record sync_system =
  sy_sync :: watch_sync
  sy_actions :: watch_actions
  sy_state :: watch_state
  adopted :: bool
  overridden :: bool
  before_tap :: "bool option"

datatype sync_event =
    Deliver watch_protocol_message
  | Link_up
  | Link_down
  | Browse_next
  | Browse_previous
  | Tap_music u64
  | Sent_action u32
  | Action_reply watch_protocol_message
  | Action_clock u64
  | Action_link_lost string

text \<open>The outcome of an action: a flag that changes is rolled back to its value at the tap.\<close>

definition settle :: "sync_system \<Rightarrow> watch_actions \<times> watch_state \<Rightarrow> sync_system" where
  "settle y result =
     (case result of (a, s) \<Rightarrow>
        y\<lparr>sy_actions := a, sy_state := s,
          overridden :=
            (if music_playing s = music_playing (sy_state y) then overridden y
             else case before_tap y of None \<Rightarrow> True | Some b \<Rightarrow> b)\<rparr>)"

text \<open>
  A message sets the playing flag when a snapshot is adopted, or when it is applied as the next
  revision and the host's change of this revision sets the flag.
\<close>

definition host_sets_playing ::
    "(nat \<Rightarrow> host_change) \<Rightarrow> watch_protocol_message \<Rightarrow> watch_sync_result \<Rightarrow> watch_sync \<Rightarrow> bool" where
  "host_sets_playing log msg result sync \<longleftrightarrow>
     (if msg_type msg = WATCH_MESSAGE_SYNC_RESPONSE then result \<noteq> WATCH_SYNC_ERROR
      else result = WATCH_SYNC_CHANGED \<and> sets_playing (log (unat (watch_sync_revision sync))))"

inductive sync_step ::
    "json_lib \<Rightarrow> (nat \<Rightarrow> host_change) \<Rightarrow> sync_system \<Rightarrow> sync_event \<Rightarrow> sync_system \<Rightarrow> bool"
  for J :: json_lib and log :: "nat \<Rightarrow> host_change"
where
  deliver: "watch_sync_handle J (sy_sync y) (sy_state y) msg = (result, sync, s) \<Longrightarrow>
     sync_step J log y (Deliver msg) (y\<lparr>sy_sync := sync, sy_state := s,
       adopted := (adopted y \<or> (msg_type msg = WATCH_MESSAGE_SYNC_RESPONSE \<and> result \<noteq> WATCH_SYNC_ERROR)),
       overridden := (overridden y \<and> \<not> host_sets_playing log msg result sync),
       before_tap := (if host_sets_playing log msg result sync then None else before_tap y)\<rparr>)"
| link_up: "sync_step J log y Link_up (y\<lparr>sy_sync := watch_sync_connected (sy_sync y)\<rparr>)"
| link_down: "sync_step J log y Link_down (y\<lparr>sy_sync := watch_sync_disconnected (sy_sync y)\<rparr>)"
| browse_next: "watch_state_notification_next (sy_state y) = (moved, s) \<Longrightarrow>
     sync_step J log y Browse_next (y\<lparr>sy_state := s\<rparr>)"
| browse_previous: "watch_state_notification_previous (sy_state y) = (moved, s) \<Longrightarrow>
     sync_step J log y Browse_previous (y\<lparr>sy_state := s\<rparr>)"
| tap: "watch_actions_begin_music (sy_actions y) (sy_state y) now = (begun, a, s) \<Longrightarrow>
     sync_step J log y (Tap_music now) (y\<lparr>sy_actions := a, sy_state := s,
       overridden := (overridden y \<or> begun),
       before_tap := (if begun then Some (overridden y) else before_tap y)\<rparr>)"
| sent: "sync_step J log y (Sent_action n) (y\<lparr>sy_actions := watch_actions_bind_message (sy_actions y) n\<rparr>)"
| reply: "watch_actions_handle_result (sy_actions y) (sy_state y) msg = (handled, result) \<Longrightarrow>
     sync_step J log y (Action_reply msg) (settle y result)"
| clock: "watch_actions_poll_timeout (sy_actions y) (sy_state y) now = (expired, result) \<Longrightarrow>
     sync_step J log y (Action_clock now) (settle y result)"
| link_lost: "sync_step J log y (Action_link_lost feedback)
     (settle y (watch_actions_fail (sy_actions y) (sy_state y) feedback))"

inductive_cases sync_stepE: "sync_step J log y e y'"

definition sync_start :: sync_system where
  "sync_start =
     \<lparr>sy_sync = watch_sync_init, sy_actions = watch_actions_init, sy_state = watch_state_init,
      adopted = False, overridden = False, before_tap = None\<rparr>"

inductive sync_reachable ::
    "json_lib \<Rightarrow> host_data \<Rightarrow> (nat \<Rightarrow> host_change) \<Rightarrow> sync_system \<Rightarrow> bool"
  for J :: json_lib and d :: host_data and log :: "nat \<Rightarrow> host_change"
where
  boot: "sync_reachable J d log sync_start"
| step: "sync_reachable J d log y \<Longrightarrow> sync_step J log y e y' \<Longrightarrow>
     (\<And>msg. e = Deliver msg \<Longrightarrow> genuine J d log msg) \<Longrightarrow> sync_reachable J d log y'"

section \<open>The invariant\<close>

definition truthful :: "(nat \<Rightarrow> host_change) \<Rightarrow> (nat \<rightharpoonup> watch_sync_change) \<Rightarrow> bool" where
  "truthful log changes \<longleftrightarrow> (\<forall>q c. changes q = Some c \<longrightarrow> implements c (log q))"

definition consistent :: "host_data \<Rightarrow> (nat \<Rightarrow> host_change) \<Rightarrow> sync_system \<Rightarrow> bool" where
  "consistent d log y \<longleftrightarrow>
     wf_sync (sy_sync y) \<and> wf_state (sy_state y) \<and> truthful log (waiting (buffered (sy_sync y))) \<and>
     (adopted y \<longrightarrow>
        (let now = host_at d log (unat (sync_revision (sy_sync y))) in
         shows_host (sy_state y) now \<and>
         (\<not> overridden y \<longrightarrow> shows_playing (sy_state y) now) \<and>
         (pending (sy_actions y) \<and> before_tap y = Some False \<longrightarrow>
            previous_music_playing (sy_actions y) = case_option False id (hd_playing now))))"

lemma truthful_newer: "truthful log changes \<Longrightarrow> truthful log (newer n changes)"
  by (auto simp: truthful_def newer_def)

lemma shows_run:
  assumes "m \<le> n" and "wf_state s" and "shows_host s (host_at d log m)" "shows_playing s (host_at d log m)"
    and "\<And>q. m < q \<Longrightarrow> q \<le> n \<Longrightarrow> \<exists>c. changes q = Some c \<and> wf_change c \<and> implements c (log q)"
  shows "wf_state (apply_run changes m n s) \<and> shows_host (apply_run changes m n s) (host_at d log n) \<and>
    shows_playing (apply_run changes m n s) (host_at d log n)"
  using assms
proof (induction n rule: dec_induct)
  case base
  then show ?case by simp
next
  case (step n)
  then have IH: "wf_state (apply_run changes m n s)" "shows_host (apply_run changes m n s) (host_at d log n)"
    "shows_playing (apply_run changes m n s) (host_at d log n)" by auto
  from step.prems(4) [of "Suc n"] step.hyps obtain c where c: "changes (Suc n) = Some c"
    "wf_change c" "implements c (log (Suc n))" by auto
  have "apply_run changes m (Suc n) s = apply_change c (apply_run changes m n s)"
    using step.hyps c(1) by (simp add: apply_run_def)
  with IH c show ?case by (simp add: wf_apply_change shows_apply)
qed

lemma genuine_snapshot:
  assumes "genuine J d log msg" "msg_type msg = WATCH_MESSAGE_SYNC_RESPONSE"
    and "wf_state s" "parse_snapshot J msg s = Inr (s', n)"
  shows "shows_host s' (host_at d log (unat n))" "shows_playing s' (host_at d log (unat n))"
proof -
  from assms(1,2) obtain m state num q where "reads_object J (payload msg) m" "m ''state'' = Some state"
    "m ''revision'' = Some num" "reads_nat num q" "reads_state J state (host_at d log q)"
    by (auto simp: genuine_def)
  note reads = parse_snapshot_reads [OF assms(3,4) this]
  from reads show "shows_host s' (host_at d log (unat n))" "shows_playing s' (host_at d log (unat n))"
    by simp_all
qed

lemma genuine_mutation:
  assumes "genuine J d log msg" "is_mutation msg" "parse_mutation J msg = Inr m"
  shows "implements (change m) (log (unat (revision m)))"
proof -
  from assms(1,2) obtain obj path tok num q where "reads_object J (payload msg) obj"
    "obj ''path'' = Some path" "obj ''value'' = Some tok" "obj ''revision'' = Some num" "reads_nat num q"
    "reads_text path (path_of (log q))" "reads_value J tok (log q)"
    by (auto simp: genuine_def)
  from parse_mutation_reads [OF assms(3) this] show ?thesis by simp
qed

text \<open>The flag and the data under a step of the synchroniser.\<close>

lemma consistent_deliver:
  assumes inv: "consistent d log y" and msg: "genuine J d log msg"
    and h: "watch_sync_handle J (sy_sync y) (sy_state y) msg = (result, sync', s')"
  shows "consistent d log (y\<lparr>sy_sync := sync', sy_state := s',
       adopted := (adopted y \<or> (msg_type msg = WATCH_MESSAGE_SYNC_RESPONSE \<and> result \<noteq> WATCH_SYNC_ERROR)),
       overridden := (overridden y \<and> \<not> host_sets_playing log msg result sync'),
       before_tap := (if host_sets_playing log msg result sync' then None else before_tap y)\<rparr>)"
proof -
  let ?sync = "sy_sync y" and ?s = "sy_state y"
  from inv have wf: "wf_sync ?sync" "wf_state ?s" and truth: "truthful log (waiting (buffered ?sync))"
    by (simp_all add: consistent_def)
  note kept = wf_sync_handle [OF wf(1) h] wf_state_handle [OF wf h]
  from h show ?thesis
  proof (cases rule: handle_cases)
    case (snapshot candidate n)
    have start: "wf_state candidate" by (rule wf_parse_snapshot [OF snapshot(2) wf(2)])
    note said = genuine_snapshot [OF msg snapshot(1) wf(2) snapshot(2)]
    from handle_snapshot(1) [OF wf(1) snapshot h]
    have spec: "contiguous (waiting (buffered ?sync)) (unat n) (unat (sync_revision sync'))"
      "s' = apply_run (waiting (buffered ?sync)) (unat n) (unat (sync_revision sync')) candidate"
      "waiting (buffered sync') = newer (unat (sync_revision sync')) (waiting (buffered ?sync))"
      "result \<noteq> WATCH_SYNC_ERROR"
      by (auto simp: snapshot_spec_def sync_view_def)
    have "wf_state s' \<and> shows_host s' (host_at d log (unat (sync_revision sync'))) \<and>
        shows_playing s' (host_at d log (unat (sync_revision sync')))"
      unfolding spec(2)
    proof (rule shows_run [OF _ start said])
      show "unat n \<le> unat (sync_revision sync')" using spec(1) by (simp add: contiguous_def)
      fix q assume "unat n < q" "q \<le> unat (sync_revision sync')"
      with spec(1) obtain c where "waiting (buffered ?sync) q = Some c"
        by (auto simp: contiguous_def)
      with truth wf(1) show "\<exists>c. waiting (buffered ?sync) q = Some c \<and> wf_change c \<and> implements c (log q)"
        by (auto simp: truthful_def wf_sync_def)
    qed
    with kept truth spec(4) snapshot(1) show ?thesis
      by (simp add: consistent_def spec(3) truthful_newer host_sets_playing_def Let_def)
  next
    case (mutation m)
    note gen = genuine_mutation [OF msg mutation(2,3)]
    let ?r = "unat (sync_revision ?sync)" and ?q = "unat (revision m)"
    from handle_mutation(1) [OF wf(1) mutation(2,3) h]
    have spec: "(result, sync_view sync', s') = mutation_spec (sync_view ?sync) ?q (change m) ?s" .
    have truth': "truthful log (waiting (buffered sync'))"
      using spec truth gen by (auto simp: mutation_spec_def sync_view_def truthful_def split: if_splits)
    show ?thesis
    proof (cases "result = WATCH_SYNC_CHANGED")
      case False
      then have "unat (sync_revision sync') = ?r" "s' = ?s"
        using spec by (auto simp: mutation_spec_def sync_view_def split: if_splits)
      with inv kept truth' mutation(1) False show ?thesis
        by (simp add: consistent_def host_sets_playing_def)
    next
      case True
      then have next_q: "unat (sync_revision sync') = Suc ?r" "?q = Suc ?r" "s' = apply_change (change m) ?s"
        using spec by (auto simp: mutation_spec_def sync_view_def split: if_splits)
      then have gen': "implements (change m) (log (Suc ?r))" using gen by simp
      note shows' = shows_apply [OF wf(2) gen']
      have "sets_playing (log (Suc ?r)) \<Longrightarrow> \<exists>b. log (Suc ?r) = Set_playing b"
        by (cases "log (Suc ?r)") simp_all
      with inv kept truth' mutation(1) True next_q shows' show ?thesis
        by (auto simp: consistent_def host_sets_playing_def watch_sync_revision_def Let_def
            playing_unchanged)
    qed
  qed (use inv in \<open>simp_all add: consistent_def host_sets_playing_def\<close>)
qed

text \<open>The steps of the user and of the actions touch nothing the host owns but the flag.\<close>

lemma browse_shows:
  "watch_state_notification_next s = (moved, s') \<Longrightarrow>
     shows_host s' d = shows_host s d \<and> music_playing s' = music_playing s"
  "watch_state_notification_previous s = (moved, s') \<Longrightarrow>
     shows_host s' d = shows_host s d \<and> music_playing s' = music_playing s"
  by (auto simp: shows_host_def list_shows_def watch_state_notification_next_def
      watch_state_notification_previous_def Let_def split: if_splits)

lemma shows_host_actions [simp]:
  "shows_host (set_feedback s t) d = shows_host s d"
  "shows_host (s\<lparr>music_playing := b\<rparr>) d = shows_host s d"
  "shows_host (s\<lparr>music_action_pending := b\<rparr>) d = shows_host s d"
  by (simp_all add: shows_host_def set_feedback_def)

text \<open>
  What settles an action: nothing happens, or it is no longer pending and the flag is the present
  one or the one from before the tap.
\<close>

definition settles :: "watch_actions \<times> watch_state \<Rightarrow> watch_actions \<times> watch_state \<Rightarrow> bool" where
  "settles before result \<longleftrightarrow>
     result = before \<or>
     (pending (fst before) \<and> \<not> pending (fst result) \<and>
      (wf_state (snd before) \<longrightarrow> wf_state (snd result)) \<and>
      (\<forall>d. shows_host (snd result) d = shows_host (snd before) d) \<and>
      music_playing (snd result) \<in> {music_playing (snd before), previous_music_playing (fst before)})"

lemma settles_refl: "settles as as"
  by (simp add: settles_def)

lemma settles_fail: "settles (a, s) (watch_actions_fail a s t)"
  by (auto simp: settles_def watch_actions_fail_def intro!: wf_intros)

lemma settles_confirm:
  "pending a \<Longrightarrow>
     settles (a, s) (a\<lparr>pending := False\<rparr>, set_feedback (s\<lparr>music_action_pending := False\<rparr>) t)"
  by (auto simp: settles_def intro!: wf_intros)

lemma settles_reply:
  "watch_actions_handle_result a s msg = (handled, result) \<Longrightarrow> settles (a, s) result"
  by (auto simp: watch_actions_handle_result_def settles_refl settles_fail settles_confirm
      split: if_splits)

lemma settles_clock:
  "watch_actions_poll_timeout a s now = (expired, result) \<Longrightarrow> settles (a, s) result"
  by (auto simp: watch_actions_poll_timeout_def settles_refl settles_fail split: if_splits)

lemma consistent_settle:
  assumes inv: "consistent d log y" and result: "settles (sy_actions y, sy_state y) result"
  shows "consistent d log (settle y result)"
proof (cases "result = (sy_actions y, sy_state y)")
  case True
  with inv show ?thesis by (simp add: settle_def)
next
  case False
  obtain a s where as: "result = (a, s)" by fastforce
  with False result have "pending (sy_actions y)" "\<not> pending a"
      "wf_state (sy_state y) \<longrightarrow> wf_state s" "\<forall>d. shows_host s d = shows_host (sy_state y) d"
      "music_playing s \<in> {music_playing (sy_state y), previous_music_playing (sy_actions y)}"
    by (auto simp: settles_def)
  with inv show ?thesis
    by (auto simp: consistent_def settle_def as Let_def shows_playing_def split: option.split)
qed

lemma consistent_tap:
  assumes inv: "consistent d log y"
    and tap: "watch_actions_begin_music (sy_actions y) (sy_state y) now = (begun, a, s)"
  shows "consistent d log (y\<lparr>sy_actions := a, sy_state := s, overridden := (overridden y \<or> begun),
       before_tap := (if begun then Some (overridden y) else before_tap y)\<rparr>)"
proof (cases "pending (sy_actions y)")
  case True
  with inv tap show ?thesis by (simp add: watch_actions_begin_music_def consistent_def)
next
  case False
  with tap have "begun" "a = (sy_actions y)\<lparr>pending := True,
        previous_music_playing := music_playing (sy_state y), message_id := 0, started_at_ms := now\<rparr>"
      "s = set_feedback ((sy_state y)\<lparr>music_playing := \<not> music_playing (sy_state y),
        music_action_pending := True\<rparr>) ''SYNCING ACTION''"
    by (simp_all add: watch_actions_begin_music_def)
  with inv show ?thesis
    by (auto simp: consistent_def Let_def shows_playing_def intro!: wf_intros)
qed

lemma consistent_step:
  assumes "consistent d log y" and "sync_step J log y e y'"
    and "\<And>msg. e = Deliver msg \<Longrightarrow> genuine J d log msg"
  shows "consistent d log y'"
  using assms(2)
proof cases
  case (deliver msg result sync s)
  with assms(1,3) show ?thesis using consistent_deliver by blast
next
  case link_up
  with assms(1) show ?thesis
    by (simp add: consistent_def wf_sync_connected) (simp add: watch_sync_connected_def)
next
  case link_down
  with assms(1) show ?thesis
    by (simp add: consistent_def wf_sync_disconnected) (simp add: watch_sync_disconnected_def truthful_def)
next
  case (browse_next moved s)
  with assms(1) wf_notification_next [of "sy_state y"] browse_shows(1) [OF browse_next(3)]
  show ?thesis by (simp add: consistent_def shows_playing_def Let_def)
next
  case (browse_previous moved s)
  with assms(1) wf_notification_previous [of "sy_state y"] browse_shows(2) [OF browse_previous(3)]
  show ?thesis by (simp add: consistent_def shows_playing_def Let_def)
next
  case (tap now begun a s)
  with assms(1) show ?thesis by (simp add: consistent_tap)
next
  case (sent n)
  with assms(1) show ?thesis by (simp add: consistent_def watch_actions_bind_message_def)
next
  case (reply msg handled result)
  with assms(1) show ?thesis by (simp add: consistent_settle settles_reply)
next
  case (clock now expired result)
  with assms(1) show ?thesis by (simp add: consistent_settle settles_clock)
next
  case (link_lost feedback)
  with assms(1) show ?thesis by (simp add: consistent_settle settles_fail)
qed

lemma reachable_consistent: "sync_reachable J d log y \<Longrightarrow> consistent d log y"
proof (induction rule: sync_reachable.induct)
  case boot
  have "waiting (buffered watch_sync_init) = Map.empty"
    by (simp add: watch_sync_init_def)
  then show ?case by (simp add: consistent_def sync_start_def truthful_def)
next
  case (step y e y')
  then show ?case by (blast intro: consistent_step)
qed

section \<open>The property\<close>

text \<open>
  C3. The watch shows the host's data, never a mixture. Let the messages be genuine: each says
  the change of one revision of the host's history, or its data at one revision, in the JSON
  of the protocol. Under any loss, repetition and reordering of them, any reconnections, any
  browsing, and any taps, replies, timeouts and lost links of music actions: once a snapshot
  has been adopted, the temperature, the condition, the title, the steps and the notifications
  on the watch are the host's at the revision the synchroniser reports. So is the playing flag,
  unless a tap or a rollback has changed it and the host has not set it since; and a rollback
  gives the host's value back unless the host has set the flag between the tap and the rollback.
\<close>

theorem watch_shows_host_revision:
  assumes "sync_reachable J d log y" and "adopted y"
  shows "shows_host (sy_state y) (host_at d log (unat (watch_sync_revision (sy_sync y)))) \<and>
    (\<not> overridden y \<longrightarrow>
       shows_playing (sy_state y) (host_at d log (unat (watch_sync_revision (sy_sync y)))))"
  using reachable_consistent [OF assms(1)] assms(2)
  by (simp add: consistent_def watch_sync_revision_def Let_def)

text \<open>
  What the exception is about: the host sets the flag between a tap and the failure of the
  action, and the rollback puts the value from before the tap over the host's.
\<close>

lemma rollback_overwrites_host:
  assumes "\<not> pending a" "watch_actions_begin_music a s now = (begun, a1, s1)"
    and "watch_actions_fail a1 (apply_change (WATCH_SYNC_PATH_MUSIC_PLAYING b) s1) feedback = (a2, s2)"
  shows "music_playing s2 = music_playing s"
  using assms by (auto simp: watch_actions_begin_music_def watch_actions_fail_def)

text \<open>
  A history for evaluation: a host with no data, whose sixth change sets 42 steps; a snapshot of
  revision 5 and the change are delivered after a connection.
\<close>

definition demo_data :: host_data where
  "demo_data = \<lparr>hd_temperature = None, hd_condition = None, hd_title = None, hd_playing = None,
                hd_steps = None, hd_notes = None\<rparr>"

definition demo_log :: "nat \<Rightarrow> host_change" where
  "demo_log q = (if q = 6 then Set_steps 42 else Set_other ''calendar'')"

lemma demo_history: "n \<le> 5 \<Longrightarrow> host_at demo_data demo_log n = demo_data"
  by (induction n) (simp_all add: demo_log_def)

lemma demo_objects:
  "reads_object demo_lib ''snapshot5'' [''revision'' \<mapsto> number ''5'',
     ''state'' \<mapsto> \<lparr>tok_type = JSON_TOK_OBJECT_START, tok_text = ''{}''\<rparr>]"
  "reads_object demo_lib ''{}'' Map.empty"
  "reads_object demo_lib ''steps6'' [''path'' \<mapsto> \<lparr>tok_type = JSON_TOK_STRING, tok_text = ''steps''\<rparr>,
     ''value'' \<mapsto> number ''42'', ''revision'' \<mapsto> number ''6'']"
  by (auto simp: reads_object_def demo_lib_def table_lib_def)

lemma demo_numbers: "reads_nat (number ''5'') 5" "reads_nat (number ''6'') 6" "reads_nat (number ''42'') 42"
  by (simp_all add: reads_nat_def number_def decimal_def digit_computes)

lemma demo_genuine:
  "genuine demo_lib demo_data demo_log (demo_message WATCH_MESSAGE_SYNC_RESPONSE ''snapshot5'')"
  "genuine demo_lib demo_data demo_log (demo_message WATCH_MESSAGE_STATE_SET ''steps6'')"
proof -
  have "reads_state demo_lib \<lparr>tok_type = JSON_TOK_OBJECT_START, tok_text = ''{}''\<rparr> demo_data"
    using demo_objects(2) by (auto simp: reads_state_def reads_pair_def demo_data_def)
  then show "genuine demo_lib demo_data demo_log (demo_message WATCH_MESSAGE_SYNC_RESPONSE ''snapshot5'')"
    using demo_objects(1) demo_numbers(1) demo_history [of 5]
    by (fastforce simp: genuine_def demo_message_def is_mutation_def)
  have "reads_text \<lparr>tok_type = JSON_TOK_STRING, tok_text = ''steps''\<rparr> (path_of (demo_log 6))"
    by (simp add: reads_text_def demo_log_def)
  moreover have "reads_value demo_lib (number ''42'') (demo_log 6)"
    using demo_numbers(3) by (simp add: demo_log_def)
  ultimately show "genuine demo_lib demo_data demo_log (demo_message WATCH_MESSAGE_STATE_SET ''steps6'')"
    using demo_objects(3) demo_numbers(2)
    by (fastforce simp: genuine_def demo_message_def is_mutation_def)
qed

theorem watch_shows_host_revision_witness:
  "\<exists>y. sync_reachable demo_lib demo_data demo_log y \<and> adopted y \<and> \<not> overridden y \<and>
     shows_host (sy_state y) (host_at demo_data demo_log 6) \<and> unat (watch_state.steps (sy_state y)) = 42"
proof -
  let ?snapshot = "demo_message WATCH_MESSAGE_SYNC_RESPONSE ''snapshot5''"
  let ?steps = "demo_message WATCH_MESSAGE_STATE_SET ''steps6''"
  let ?s = "watch_state_reset_host_owned watch_state_init"
  let ?y0 = "sync_start\<lparr>sy_sync := demo_waiting\<rparr>"
  obtain r1 sync1 s1 where h1: "watch_sync_handle demo_lib demo_waiting watch_state_init ?snapshot = (r1, sync1, s1)"
    by (metis prod_cases3)
  have "snapshot_spec Map.empty 5 ?s (r1, sync_view sync1, s1)"
    using handle_snapshot(1) [OF wf_demo_waiting _ _ h1, of ?s 5] view_demo_waiting
    by (simp add: demo_parses sync_view_def)
  then have v1: "sync_view sync1 = (5, False, Map.empty)" "r1 = WATCH_SYNC_CHANGED"
    by (simp_all add: snapshot_spec_empty)
  have wf1: "wf_sync sync1" by (rule wf_sync_handle [OF wf_demo_waiting h1])
  obtain r2 sync2 s2 where h2: "watch_sync_handle demo_lib sync1 s1 ?steps = (r2, sync2, s2)"
    by (metis prod_cases3)
  have v2: "sync_view sync2 = (6, False, Map.empty)"
    using handle_mutation(1) [OF wf1 _ _ h2] v1
    by (simp add: demo_parses mutation_spec_def)
  have "sync_reachable demo_lib demo_data demo_log ?y0"
    using sync_reachable.step [OF sync_reachable.boot link_up, where J = demo_lib]
    by (simp add: demo_waiting_def sync_start_def)
  moreover have "sync_step demo_lib demo_log ?y0 (Deliver ?snapshot)
      (?y0\<lparr>sy_sync := sync1, sy_state := s1, adopted := True, overridden := False, before_tap := None\<rparr>)"
    (is "sync_step _ _ _ _ ?y1")
    using deliver [of demo_lib ?y0 ?snapshot r1 sync1 s1 demo_log] h1 v1(2)
    by (simp add: sync_start_def host_sets_playing_def)
  ultimately have reach1: "sync_reachable demo_lib demo_data demo_log ?y1"
    by (rule sync_reachable.step) (use demo_genuine(1) in simp)
  obtain y2 where y2: "sync_step demo_lib demo_log ?y1 (Deliver ?steps) y2"
      "sy_sync y2 = sync2" "adopted y2" "\<not> overridden y2"
    using deliver [of demo_lib ?y1 ?steps r2 sync2 s2 demo_log] h2 by fastforce
  have "sync_reachable demo_lib demo_data demo_log y2"
    by (rule sync_reachable.step [OF reach1 y2(1)]) (use demo_genuine(2) in simp)
  moreover from watch_shows_host_revision [OF this y2(3)] v2 y2(2)
  have shown: "shows_host (sy_state y2) (host_at demo_data demo_log 6)"
    by (simp add: watch_sync_revision_def sync_view_def)
  moreover have "hd_steps (host_at demo_data demo_log 6) = Some 42"
    using demo_history [of 5] by (simp add: numeral_eq_Suc demo_log_def)
  ultimately show ?thesis using y2(3,4) by (auto simp: shows_host_def)
qed

end
