(* ===== verification/Byte_Layout.thy ===== *)
theory Byte_Layout
  imports Watch_Prelude
begin

text \<open>
  The object representation of C data on the simulator's target (little endian, LP64), as the
  cache record needs it: integers as byte lists, character arrays as bytes, a structure as the
  concatenation of its members and of the padding between them. The lemmas are round trips in
  both directions. The theory also holds the interface of a byte hash that no single byte can
  escape.
\<close>

section \<open>Integers\<close>

fun le_bytes :: "nat \<Rightarrow> nat \<Rightarrow> u8 list" where
  "le_bytes 0 k = []"
| "le_bytes (Suc n) k = of_nat k # le_bytes n (k div 256)"

fun le_nat :: "u8 list \<Rightarrow> nat" where
  "le_nat [] = 0"
| "le_nat (b # bs) = unat b + 256 * le_nat bs"

lemma length_le_bytes [simp]: "length (le_bytes n k) = n"
  by (induction n arbitrary: k) simp_all

lemma unat_of_nat_u8: "unat (of_nat k :: u8) = k mod 256"
  by (simp add: unat_of_nat)

lemma le_nat_bytes: "le_nat (le_bytes n k) = k mod 256 ^ n"
  by (induction n arbitrary: k) (simp_all add: unat_of_nat_u8 mod_mult2_eq)

lemma le_bytes_nat: "length bs = n \<Longrightarrow> le_bytes n (le_nat bs) = bs"
proof (induction bs arbitrary: n)
  case Nil
  then show ?case by simp
next
  case (Cons b bs)
  have "(of_nat (unat b + 256 * le_nat bs) :: u8) = b"
  proof -
    have "unat (of_nat (unat b + 256 * le_nat bs) :: u8) = unat b"
      by (simp only: unat_of_nat_u8) simp
    then show ?thesis by (simp only: word_unat_eq_iff)
  qed
  with Cons show ?case by (cases n) simp_all
qed

lemma le_nat_less: "le_nat bs < 256 ^ length bs"
proof (induction bs)
  case (Cons b bs)
  have "unat b < 256" by simp
  with Cons have "unat b + 256 * le_nat bs < 256 * 256 ^ length bs" by linarith
  then show ?case by simp
qed simp

text \<open>Words of a whole number of bytes.\<close>

definition word_bytes :: "'a::len word \<Rightarrow> u8 list" where
  "word_bytes w = le_bytes (LENGTH('a) div 8) (unat w)"

definition bytes_word :: "u8 list \<Rightarrow> 'a::len word" where
  "bytes_word bs = of_nat (le_nat bs)"

lemma length_word_bytes [simp]: "length (word_bytes (w :: 'a::len word)) = LENGTH('a) div 8"
  by (simp add: word_bytes_def)

lemma byte_power:
  assumes "8 dvd n"
  shows "256 ^ (n div 8) = (2 :: nat) ^ n"
proof -
  have "256 ^ (n div 8) = ((2 :: nat) ^ 8) ^ (n div 8)" by simp
  also have "\<dots> = 2 ^ (8 * (n div 8))" by (simp only: power_mult)
  finally show ?thesis by (simp only: dvd_mult_div_cancel [OF assms])
qed

lemma bytes_word_bytes:
  assumes "8 dvd LENGTH('a)"
  shows "bytes_word (word_bytes (w :: 'a::len word)) = w"
proof -
  have "unat w < 2 ^ LENGTH('a)" by (rule unsigned_less)
  then have "le_nat (word_bytes w) = unat w"
    by (simp add: word_bytes_def le_nat_bytes byte_power [OF assms])
  then show ?thesis by (simp add: bytes_word_def)
qed

lemma word_bytes_word:
  assumes "8 dvd LENGTH('a)" and "length bs = LENGTH('a) div 8"
  shows "word_bytes (bytes_word bs :: 'a::len word) = bs"
proof -
  have "le_nat bs < 2 ^ LENGTH('a)"
    using le_nat_less [of bs] by (simp add: assms(2) byte_power [OF assms(1)])
  then have "unat (bytes_word bs :: 'a word) = le_nat bs"
    by (simp add: bytes_word_def unat_of_nat)
  then show ?thesis by (simp add: word_bytes_def le_bytes_nat assms(2))
qed

lemma bytes_word_bytes_sizes [simp]:
  "bytes_word (word_bytes (a :: u8)) = a" "bytes_word (word_bytes (b :: u16)) = b"
  "bytes_word (word_bytes (c :: u32)) = c" "bytes_word (word_bytes (d :: u64)) = d"
  by (simp_all add: bytes_word_bytes)

lemma word_bytes_word_sizes [simp]:
  "length bs = 1 \<Longrightarrow> word_bytes (bytes_word bs :: u8) = bs"
  "length bs = 2 \<Longrightarrow> word_bytes (bytes_word bs :: u16) = bs"
  "length bs = 4 \<Longrightarrow> word_bytes (bytes_word bs :: u32) = bs"
  "length bs = 8 \<Longrightarrow> word_bytes (bytes_word bs :: u64) = bs"
  by (simp_all add: word_bytes_word)

section \<open>Booleans and characters\<close>

definition bool_bytes :: "bool \<Rightarrow> u8 list" where
  "bool_bytes b = [if b then 1 else 0]"

definition bytes_bool :: "u8 list \<Rightarrow> bool" where
  "bytes_bool bs \<longleftrightarrow> bs \<noteq> [0]"

definition string_bytes :: "string \<Rightarrow> u8 list" where
  "string_bytes s = map u8_of_char s"

definition bytes_string :: "u8 list \<Rightarrow> string" where
  "bytes_string bs = map char_of_u8 bs"

lemma length_bytes [simp]:
  "length (bool_bytes b) = 1" "length (string_bytes s) = length s" "length (bytes_string bs) = length bs"
  by (simp_all add: bool_bytes_def string_bytes_def bytes_string_def)

lemma bytes_round_trips [simp]:
  "bytes_bool (bool_bytes b) = b" "bytes_string (string_bytes s) = s" "string_bytes (bytes_string bs) = bs"
  by (simp_all add: bytes_bool_def bool_bytes_def string_bytes_def bytes_string_def o_def)

lemma bool_bytes_bool: "bs \<in> {[0], [1]} \<Longrightarrow> bool_bytes (bytes_bool bs) = bs"
  by (auto simp: bool_bytes_def bytes_bool_def)

section \<open>Structures as chunks\<close>

text \<open>Cutting a byte list into chunks of the given sizes.\<close>

fun chunks :: "nat list \<Rightarrow> 'a list \<Rightarrow> 'a list list" where
  "chunks [] xs = []"
| "chunks (n # ns) xs = take n xs # chunks ns (drop n xs)"

lemma length_chunks [simp]: "length (chunks ns xs) = length ns"
  by (induction ns arbitrary: xs) simp_all

lemma chunks_concat: "map length xss = ns \<Longrightarrow> chunks ns (concat xss) = xss"
  by (induction xss arbitrary: ns) auto

lemma concat_chunks: "length xs = sum_list ns \<Longrightarrow> concat (chunks ns xs) = xs"
  by (induction ns arbitrary: xs) simp_all

lemma chunks_lengths: "length xs = sum_list ns \<Longrightarrow> map length (chunks ns xs) = ns"
  by (induction ns arbitrary: xs) simp_all

section \<open>Hashes that see every byte\<close>

text \<open>
  A hash that folds a step over the bytes, where the step is injective in the hash value for
  each byte and in the byte for each hash value: changing a single byte changes the hash.
\<close>

locale byte_sensitive_hash =
  fixes hash_step :: "'h \<Rightarrow> 'b \<Rightarrow> 'h"
  assumes step_inj_hash: "hash_step h b = hash_step h' b \<Longrightarrow> h = h'"
    and step_inj_byte: "hash_step h b = hash_step h b' \<Longrightarrow> b = b'"
begin

lemma foldl_inj_start: "foldl hash_step h bs = foldl hash_step h' bs \<Longrightarrow> h = h'"
  by (induction bs arbitrary: h h') (auto dest: step_inj_hash)

lemma foldl_one_byte:
  "foldl hash_step h (xs @ b # ys) = foldl hash_step h (xs @ b' # ys) \<longleftrightarrow> b = b'"
  by (auto dest: foldl_inj_start step_inj_byte)

lemma foldl_list_update:
  assumes "i < length bs" and "b \<noteq> bs ! i"
  shows "foldl hash_step h (bs[i := b]) \<noteq> foldl hash_step h bs"
proof -
  have "bs[i := b] = take i bs @ b # drop (Suc i) bs" "bs = take i bs @ bs ! i # drop (Suc i) bs"
    using assms(1) by (simp_all add: upd_conv_take_nth_drop id_take_nth_drop)
  then show ?thesis using assms(2) foldl_one_byte by metis
qed

end

end
