(* ===== verification/Watch_Cache.thy ===== *)
theory Watch_Cache
  imports Watch_State Byte_Layout
begin

text \<open>
  The offline cache record (\<open>watch/src/cache/watch_cache.h\<close> and \<open>watch_cache.c\<close>). The
  checksum runs over the bytes of the structure in memory, padding included, and the record is
  written to disk as these bytes, so the record is modelled together with its object
  representation on the simulator's target (native/64: LP64, little endian): 912 bytes, where
  the bytes the compiler inserts between members are members of the model. A \<open>bool\<close> is the
  byte that holds it, 0 or 1 when the program wrote it.
\<close>

section \<open>The record\<close>

definition WATCH_CACHE_MAGIC :: u32 where
  "WATCH_CACHE_MAGIC = 0x434d4643"

definition WATCH_CACHE_SCHEMA_VERSION :: u32 where
  "WATCH_CACHE_SCHEMA_VERSION = 1"

definition RECORD_SIZE :: nat where
  "RECORD_SIZE = 912"

record watch_cache_metadata =
  version :: u32
  pad_after_version :: "u8 list"
  updated_at_ms :: u64
  stale :: u8
  pad_after_stale :: "u8 list"

record watch_cache_record =
  magic :: u32
  schema_version :: u32
  record_size :: u32
  checksum :: u32
  weather_meta :: watch_cache_metadata
  cached_temperature_c :: i16
  cached_weather_condition :: string
  pad_6 :: "u8 list"
  activity_meta :: watch_cache_metadata
  cached_steps :: u32
  pad_10 :: "u8 list"
  notifications_meta :: watch_cache_metadata
  cached_notifications :: watch_notification_list
  pad_13 :: "u8 list"
  music_meta :: watch_cache_metadata
  cached_music_title :: string
  cached_music_playing :: u8
  pad_17 :: "u8 list"
  application_meta :: watch_cache_metadata
  cached_active_screen :: watch_screen
  pad_20 :: "u8 list"
  connection_meta :: watch_cache_metadata
  synchronized_revision :: u64
  assets_meta :: watch_cache_metadata
  asset_generation :: u32
  pad_25 :: "u8 list"

section \<open>Object representation\<close>

definition meta_chunks :: "watch_cache_metadata \<Rightarrow> u8 list list" where
  "meta_chunks m =
     [word_bytes (version m), pad_after_version m, word_bytes (updated_at_ms m),
      word_bytes (stale m), pad_after_stale m]"

definition meta_sizes :: "nat list" where
  "meta_sizes = [4, 4, 8, 1, 7]"

definition meta_of_chunks :: "u8 list list \<Rightarrow> watch_cache_metadata" where
  "meta_of_chunks cs =
     \<lparr>version = bytes_word (cs ! 0), pad_after_version = cs ! 1, updated_at_ms = bytes_word (cs ! 2),
      stale = bytes_word (cs ! 3), pad_after_stale = cs ! 4\<rparr>"

definition meta_bytes :: "watch_cache_metadata \<Rightarrow> u8 list" where
  "meta_bytes m = concat (meta_chunks m)"

definition bytes_meta :: "u8 list \<Rightarrow> watch_cache_metadata" where
  "bytes_meta bs = meta_of_chunks (chunks meta_sizes bs)"

definition notification_bytes :: "watch_notification \<Rightarrow> u8 list" where
  "notification_bytes n = string_bytes (title n) @ string_bytes (body n)"

definition bytes_notification :: "u8 list \<Rightarrow> watch_notification" where
  "bytes_notification bs =
     \<lparr>title = bytes_string (take 48 bs), body = bytes_string (drop 48 bs)\<rparr>"

definition notification_list_bytes :: "watch_notification_list \<Rightarrow> u8 list" where
  "notification_list_bytes l =
     word_bytes (total_count l) @ word_bytes (stored_count l) @ word_bytes (active_index l) @
     concat (map notification_bytes (entries l))"

definition bytes_notification_list :: "u8 list \<Rightarrow> watch_notification_list" where
  "bytes_notification_list bs =
     \<lparr>total_count = bytes_word (take 2 bs), stored_count = bytes_word (take 1 (drop 2 bs)),
      active_index = bytes_word (take 1 (drop 3 bs)),
      entries = map bytes_notification (chunks [144, 144, 144, 144] (drop 4 bs))\<rparr>"

definition cache_sizes :: "nat list" where
  "cache_sizes =
     [4, 4, 4, 4, 24, 2, 32, 6, 24, 4, 4, 24, 580, 4, 24, 64, 1, 7, 24, 4, 4, 24, 8, 24, 4, 4]"

definition cache_chunks :: "watch_cache_record \<Rightarrow> u8 list list" where
  "cache_chunks r =
     [word_bytes (magic r), word_bytes (schema_version r), word_bytes (record_size r),
      word_bytes (checksum r),
      meta_bytes (weather_meta r), word_bytes (cached_temperature_c r),
      string_bytes (cached_weather_condition r), pad_6 r,
      meta_bytes (activity_meta r), word_bytes (cached_steps r), pad_10 r,
      meta_bytes (notifications_meta r), notification_list_bytes (cached_notifications r), pad_13 r,
      meta_bytes (music_meta r), string_bytes (cached_music_title r),
      word_bytes (cached_music_playing r), pad_17 r,
      meta_bytes (application_meta r), le_bytes 4 (screen_num (cached_active_screen r)), pad_20 r,
      meta_bytes (connection_meta r), word_bytes (synchronized_revision r),
      meta_bytes (assets_meta r), word_bytes (asset_generation r), pad_25 r]"

definition cache_of_chunks :: "u8 list list \<Rightarrow> watch_cache_record" where
  "cache_of_chunks cs =
     \<lparr>magic = bytes_word (cs ! 0), schema_version = bytes_word (cs ! 1),
      record_size = bytes_word (cs ! 2), checksum = bytes_word (cs ! 3),
      weather_meta = bytes_meta (cs ! 4), cached_temperature_c = bytes_word (cs ! 5),
      cached_weather_condition = bytes_string (cs ! 6), pad_6 = cs ! 7,
      activity_meta = bytes_meta (cs ! 8), cached_steps = bytes_word (cs ! 9), pad_10 = cs ! 10,
      notifications_meta = bytes_meta (cs ! 11),
      cached_notifications = bytes_notification_list (cs ! 12), pad_13 = cs ! 13,
      music_meta = bytes_meta (cs ! 14), cached_music_title = bytes_string (cs ! 15),
      cached_music_playing = bytes_word (cs ! 16), pad_17 = cs ! 17,
      application_meta = bytes_meta (cs ! 18),
      cached_active_screen = screen_of (le_nat (cs ! 19)), pad_20 = cs ! 20,
      connection_meta = bytes_meta (cs ! 21), synchronized_revision = bytes_word (cs ! 22),
      assets_meta = bytes_meta (cs ! 23), asset_generation = bytes_word (cs ! 24), pad_25 = cs ! 25\<rparr>"

text \<open>The bytes of the object, and the object a byte array holds.\<close>

definition cache_image :: "watch_cache_record \<Rightarrow> u8 list" where
  "cache_image r = concat (cache_chunks r)"

definition image_cache :: "u8 list \<Rightarrow> watch_cache_record" where
  "image_cache bs = cache_of_chunks (chunks cache_sizes bs)"

section \<open>Operations\<close>

definition hash_step :: "u32 \<Rightarrow> u8 \<Rightarrow> u32" where
  "hash_step hash b = (hash XOR ucast b) * 16777619"

definition record_checksum :: "watch_cache_record \<Rightarrow> u32" where
  "record_checksum cache =
     (let copy = cache\<lparr>checksum := 0\<rparr> in foldl hash_step 2166136261 (cache_image copy))"

definition copy_text :: "string \<Rightarrow> string \<Rightarrow> string" where
  "copy_text destination source =
     (if length destination = 0 then destination else strncpy_terminated destination source)"

definition refresh :: "watch_cache_metadata \<Rightarrow> u64 \<Rightarrow> watch_cache_metadata" where
  "refresh metadata now_ms =
     metadata\<lparr>version := version metadata + 1, updated_at_ms := now_ms, stale := 0\<rparr>"

definition watch_cache_seal :: "watch_cache_record \<Rightarrow> watch_cache_record" where
  "watch_cache_seal cache = cache\<lparr>checksum := record_checksum cache\<rparr>"

text \<open>The record of all zero bytes, as \<open>memset\<close> leaves it.\<close>

definition zero_meta :: watch_cache_metadata where
  "zero_meta = \<lparr>version = 0, pad_after_version = replicate 4 0, updated_at_ms = 0, stale = 0,
                pad_after_stale = replicate 7 0\<rparr>"

definition zero_cache :: watch_cache_record where
  "zero_cache =
     \<lparr>magic = 0, schema_version = 0, record_size = 0, checksum = 0,
      weather_meta = zero_meta, cached_temperature_c = 0,
      cached_weather_condition = zero_array 32, pad_6 = replicate 6 0,
      activity_meta = zero_meta, cached_steps = 0, pad_10 = replicate 4 0,
      notifications_meta = zero_meta, cached_notifications = zero_notification_list,
      pad_13 = replicate 4 0,
      music_meta = zero_meta, cached_music_title = zero_array 64, cached_music_playing = 0,
      pad_17 = replicate 7 0,
      application_meta = zero_meta, cached_active_screen = WATCH_SCREEN_HOME, pad_20 = replicate 4 0,
      connection_meta = zero_meta, synchronized_revision = 0,
      assets_meta = zero_meta, asset_generation = 0, pad_25 = replicate 4 0\<rparr>"

definition watch_cache_init :: watch_cache_record where
  "watch_cache_init = watch_cache_seal
     (zero_cache\<lparr>magic := WATCH_CACHE_MAGIC, schema_version := WATCH_CACHE_SCHEMA_VERSION,
                record_size := of_nat RECORD_SIZE,
                assets_meta := (assets_meta zero_cache)\<lparr>version := 1, stale := 0\<rparr>,
                asset_generation := 1\<rparr>)"

definition watch_cache_valid :: "watch_cache_record \<Rightarrow> bool" where
  "watch_cache_valid cache \<longleftrightarrow>
     magic cache = WATCH_CACHE_MAGIC \<and>
     schema_version cache = WATCH_CACHE_SCHEMA_VERSION \<and>
     record_size cache = of_nat RECORD_SIZE \<and>
     cached_active_screen cache \<ge> WATCH_SCREEN_HOME \<and>
     cached_active_screen cache < WATCH_SCREEN_COUNT \<and>
     unat (stored_count (cached_notifications cache)) \<le> WATCH_NOTIFICATION_CAPACITY \<and>
     ((stored_count (cached_notifications cache) = 0 \<and>
       active_index (cached_notifications cache) = 0) \<or>
      active_index (cached_notifications cache) < stored_count (cached_notifications cache)) \<and>
     checksum cache = record_checksum cache"

text \<open>
  \<open>watch_cache_restore\<close>: the locals \<open>restored\<close>, \<open>restored_host_data\<close> and \<open>updated_at_ms\<close> are
  threaded through its five groups. A group's time stamp counts when it is later.
\<close>

definition later_stamp :: "u64 \<Rightarrow> u64 \<Rightarrow> u64" where
  "later_stamp stamp updated = (if stamp > updated then stamp else updated)"

definition watch_cache_restore :: "watch_cache_record \<Rightarrow> watch_state \<Rightarrow> bool \<times> watch_state" where
  "watch_cache_restore cache state =
     (if \<not> watch_cache_valid cache then (False, state)
      else
        let (state, updated, restored, restored_host_data) =
              (if version (weather_meta cache) > 0 then
                 (state\<lparr>temperature_c := cached_temperature_c cache,
                        weather_condition :=
                          copy_text (weather_condition state) (cached_weather_condition cache)\<rparr>,
                  updated_at_ms (weather_meta cache), True, True)
               else (state, 0, False, False));
            (state, updated, restored, restored_host_data) =
              (if version (activity_meta cache) > 0 then
                 (state\<lparr>steps := cached_steps cache\<rparr>,
                  later_stamp (updated_at_ms (activity_meta cache)) updated, True, True)
               else (state, updated, restored, restored_host_data));
            (state, updated, restored, restored_host_data) =
              (if version (notifications_meta cache) > 0 then
                 (state\<lparr>notifications := cached_notifications cache\<rparr>,
                  later_stamp (updated_at_ms (notifications_meta cache)) updated, True, True)
               else (state, updated, restored, restored_host_data));
            (state, updated, restored, restored_host_data) =
              (if version (music_meta cache) > 0 then
                 (state\<lparr>music_title := copy_text (music_title state) (cached_music_title cache),
                        music_playing := (cached_music_playing cache \<noteq> 0)\<rparr>,
                  later_stamp (updated_at_ms (music_meta cache)) updated, True, True)
               else (state, updated, restored, restored_host_data));
            (state, restored) =
              (if version (application_meta cache) > 0 then
                 (state\<lparr>active_screen := cached_active_screen cache\<rparr>, True)
               else (state, restored))
        in (restored, state\<lparr>connection := WATCH_CONNECTION_OFFLINE,
                            host_data_stale := restored_host_data,
                            host_data_updated_at_ms := updated\<rparr>))"

definition watch_cache_capture_sync ::
    "watch_cache_record \<Rightarrow> watch_state \<Rightarrow> u64 \<Rightarrow> u64 \<Rightarrow> watch_cache_record" where
  "watch_cache_capture_sync cache state revision now_ms = watch_cache_seal (cache
     \<lparr>weather_meta := refresh (weather_meta cache) now_ms,
      cached_temperature_c := temperature_c state,
      cached_weather_condition := copy_text (cached_weather_condition cache) (weather_condition state),
      activity_meta := refresh (activity_meta cache) now_ms,
      cached_steps := steps state,
      notifications_meta := refresh (notifications_meta cache) now_ms,
      cached_notifications := notifications state,
      music_meta := refresh (music_meta cache) now_ms,
      cached_music_title := copy_text (cached_music_title cache) (music_title state),
      cached_music_playing := (if music_playing state then 1 else 0),
      connection_meta := refresh (connection_meta cache) now_ms,
      synchronized_revision := revision\<rparr>)"

definition watch_cache_capture_application ::
    "watch_cache_record \<Rightarrow> watch_state \<Rightarrow> u64 \<Rightarrow> watch_cache_record" where
  "watch_cache_capture_application cache state now_ms = watch_cache_seal (cache
     \<lparr>application_meta := refresh (application_meta cache) now_ms,
      cached_active_screen := active_screen state,
      cached_notifications := (cached_notifications cache)
        \<lparr>active_index := active_index (notifications state)\<rparr>\<rparr>)"

definition watch_cache_mark_stale :: "watch_cache_record \<Rightarrow> u64 \<Rightarrow> watch_cache_record" where
  "watch_cache_mark_stale cache now_ms =
     (if version (weather_meta cache) = 0 then cache
      else watch_cache_seal (cache
        \<lparr>weather_meta := (weather_meta cache)\<lparr>stale := 1\<rparr>,
         activity_meta := (activity_meta cache)\<lparr>stale := 1\<rparr>,
         notifications_meta := (notifications_meta cache)\<lparr>stale := 1\<rparr>,
         music_meta := (music_meta cache)\<lparr>stale := 1\<rparr>,
         connection_meta := (refresh (connection_meta cache) now_ms)\<lparr>stale := 1\<rparr>\<rparr>))"

section \<open>Round trip of the object representation\<close>

definition wf_meta :: "watch_cache_metadata \<Rightarrow> bool" where
  "wf_meta m \<longleftrightarrow> length (pad_after_version m) = 4 \<and> length (pad_after_stale m) = 7"

definition sized_notification :: "watch_notification \<Rightarrow> bool" where
  "sized_notification n \<longleftrightarrow> length (title n) = 48 \<and> length (body n) = 96"

definition sized_notification_list :: "watch_notification_list \<Rightarrow> bool" where
  "sized_notification_list l \<longleftrightarrow> length (entries l) = 4 \<and> list_all sized_notification (entries l)"

text \<open>Every member has the size of its type.\<close>

definition wf_layout :: "watch_cache_record \<Rightarrow> bool" where
  "wf_layout r \<longleftrightarrow>
     wf_meta (weather_meta r) \<and> wf_meta (activity_meta r) \<and> wf_meta (notifications_meta r) \<and>
     wf_meta (music_meta r) \<and> wf_meta (application_meta r) \<and> wf_meta (connection_meta r) \<and>
     wf_meta (assets_meta r) \<and>
     length (cached_weather_condition r) = 32 \<and> length (cached_music_title r) = 64 \<and>
     sized_notification_list (cached_notifications r) \<and>
     screen_num (cached_active_screen r) < 2 ^ 32 \<and>
     length (pad_6 r) = 6 \<and> length (pad_10 r) = 4 \<and> length (pad_13 r) = 4 \<and>
     length (pad_17 r) = 7 \<and> length (pad_20 r) = 4 \<and> length (pad_25 r) = 4"

lemma bytes_meta_bytes: "wf_meta m \<Longrightarrow> bytes_meta (meta_bytes m) = m"
  by (simp add: bytes_meta_def meta_bytes_def chunks_concat meta_sizes_def meta_chunks_def
      wf_meta_def meta_of_chunks_def)

lemma length_meta_bytes [simp]: "wf_meta m \<Longrightarrow> length (meta_bytes m) = 24"
  by (simp add: meta_bytes_def meta_chunks_def wf_meta_def)

lemma meta_bytes_meta:
  assumes "length bs = 24"
  shows "meta_bytes (bytes_meta bs) = bs" "wf_meta (bytes_meta bs)"
proof -
  let ?cs = "chunks meta_sizes bs"
  have "concat ?cs = bs"
    by (rule concat_chunks) (simp add: assms meta_sizes_def)
  moreover have "meta_chunks (meta_of_chunks ?cs) = ?cs"
    using assms by (simp add: meta_chunks_def meta_of_chunks_def meta_sizes_def)
  ultimately show "meta_bytes (bytes_meta bs) = bs"
    by (simp add: meta_bytes_def bytes_meta_def)
  show "wf_meta (bytes_meta bs)"
    using assms by (simp add: wf_meta_def bytes_meta_def meta_of_chunks_def meta_sizes_def)
qed

lemma bytes_notification_bytes:
  "sized_notification n \<Longrightarrow> bytes_notification (notification_bytes n) = n"
  "sized_notification n \<Longrightarrow> length (notification_bytes n) = 144"
  by (simp_all add: bytes_notification_def notification_bytes_def sized_notification_def
      string_bytes_def bytes_string_def o_def)

lemma notification_bytes_notification:
  "notification_bytes (bytes_notification bs) = bs"
  "length bs = 144 \<Longrightarrow> sized_notification (bytes_notification bs)"
  by (simp_all add: bytes_notification_def notification_bytes_def sized_notification_def)

lemma notification_list_round_trip:
  assumes "sized_notification_list l"
  shows "bytes_notification_list (notification_list_bytes l) = l"
    "length (notification_list_bytes l) = 580"
proof -
  from assms obtain a b c d where es: "entries l = [a, b, c, d]"
    by (auto simp: sized_notification_list_def numeral_eq_Suc length_Suc_conv)
  with assms have sized: "sized_notification a" "sized_notification b" "sized_notification c"
    "sized_notification d" by (simp_all add: sized_notification_list_def)
  show "length (notification_list_bytes l) = 580"
    using sized by (simp add: notification_list_bytes_def es bytes_notification_bytes)
  have "chunks [144, 144, 144, 144] (concat (map notification_bytes (entries l))) =
      map notification_bytes (entries l)"
    using sized by (intro chunks_concat) (simp add: es bytes_notification_bytes)
  moreover have "map bytes_notification (map notification_bytes (entries l)) = entries l"
    using sized by (simp add: es bytes_notification_bytes)
  ultimately show "bytes_notification_list (notification_list_bytes l) = l"
    by (simp add: bytes_notification_list_def notification_list_bytes_def del: chunks.simps)
qed

lemma notification_list_bytes_list:
  assumes "length bs = 580"
  shows "notification_list_bytes (bytes_notification_list bs) = bs"
    "sized_notification_list (bytes_notification_list bs)"
proof -
  let ?cs = "chunks [144, 144, 144, 144] (drop 4 bs)"
  have cs: "concat ?cs = drop 4 bs" by (rule concat_chunks) (simp add: assms)
  have "bs = take 2 bs @ take 1 (drop 2 bs) @ take 1 (drop 3 bs) @ drop 4 bs"
    using concat_chunks [of bs "[2, 1, 1, 576]"] assms by (simp add: eval_nat_numeral)
  moreover have "map notification_bytes (map bytes_notification ?cs) = ?cs"
    by (simp add: o_def notification_bytes_notification)
  ultimately show "notification_list_bytes (bytes_notification_list bs) = bs"
    using cs assms
    by (simp add: notification_list_bytes_def bytes_notification_list_def del: chunks.simps)
  show "sized_notification_list (bytes_notification_list bs)"
    using assms by (simp add: sized_notification_list_def bytes_notification_list_def
        notification_bytes_notification)
qed

lemma cache_sizes_length: "length cache_sizes = 26"
  by (simp add: cache_sizes_def)

lemma cache_chunks_lengths: "wf_layout r \<Longrightarrow> map length (cache_chunks r) = cache_sizes"
  by (simp add: cache_chunks_def cache_sizes_def wf_layout_def notification_list_round_trip)

lemma image_cache_image: "wf_layout r \<Longrightarrow> image_cache (cache_image r) = r"
  unfolding image_cache_def cache_image_def
  by (simp only: chunks_concat [OF cache_chunks_lengths])
     (simp add: cache_chunks_def cache_of_chunks_def wf_layout_def bytes_meta_bytes
       notification_list_round_trip le_nat_bytes)

lemma length_cache_image: "wf_layout r \<Longrightarrow> length (cache_image r) = RECORD_SIZE"
  unfolding cache_image_def length_concat
  by (simp add: cache_chunks_lengths cache_sizes_def RECORD_SIZE_def)

lemma cache_chunks_of_chunks:
  assumes "map length cs = cache_sizes"
  shows "cache_chunks (cache_of_chunks cs) = cs" "wf_layout (cache_of_chunks cs)"
proof -
  from assms have n: "length cs = 26"
    by (metis length_map cache_sizes_length)
  then have len: "length (cs ! k) = cache_sizes ! k" if "k < 26" for k
    using that assms by (metis nth_map)
  note sizes = len [of 0] len [of 1] len [of 2] len [of 3] len [of 4] len [of 5] len [of 6]
    len [of 7] len [of 8] len [of 9] len [of 10] len [of 11] len [of 12] len [of 13] len [of 14]
    len [of 15] len [of 16] len [of 17] len [of 18] len [of 19] len [of 20] len [of 21]
    len [of 22] len [of 23] len [of 24] len [of 25]
  then have sizes': "length (cs ! 0) = 4" "length (cs ! Suc 0) = 4" "length (cs ! 2) = 4"
    "length (cs ! 3) = 4" "length (cs ! 4) = 24" "length (cs ! 5) = 2" "length (cs ! 6) = 32"
    "length (cs ! 7) = 6" "length (cs ! 8) = 24" "length (cs ! 9) = 4" "length (cs ! 10) = 4"
    "length (cs ! 11) = 24" "length (cs ! 12) = 580" "length (cs ! 13) = 4" "length (cs ! 14) = 24"
    "length (cs ! 15) = 64" "length (cs ! 16) = 1" "length (cs ! 17) = 7" "length (cs ! 18) = 24"
    "length (cs ! 19) = 4" "length (cs ! 20) = 4" "length (cs ! 21) = 24" "length (cs ! 22) = 8"
    "length (cs ! 23) = 24" "length (cs ! 24) = 4" "length (cs ! 25) = 4"
    by (simp_all add: cache_sizes_def)
  have indices: "[0..<26] = [0, 1, 2, 3, 4, 5, 6, 7, 8, 9, 10, 11, 12, 13, 14, 15, 16, 17, 18, 19,
      20, 21, 22, 23, 24, 25 :: nat]"
    by code_simp
  have "cs = map ((!) cs) [0..<26]" by (simp only: map_nth flip: n)
  also have "\<dots> = [cs!0, cs!1, cs!2, cs!3, cs!4, cs!5, cs!6, cs!7, cs!8, cs!9, cs!10, cs!11, cs!12,
      cs!13, cs!14, cs!15, cs!16, cs!17, cs!18, cs!19, cs!20, cs!21, cs!22, cs!23, cs!24, cs!25]"
    by (simp only: indices list.map)
  finally show "cache_chunks (cache_of_chunks cs) = cs"
    by (simp add: cache_chunks_def cache_of_chunks_def sizes' meta_bytes_meta le_bytes_nat
        notification_list_bytes_list)
  have "le_nat (cs ! 19) < 2 ^ 32" using le_nat_less [of "cs ! 19"] by (simp add: sizes')
  then show "wf_layout (cache_of_chunks cs)"
    by (simp add: wf_layout_def cache_of_chunks_def sizes' meta_bytes_meta
        notification_list_bytes_list)
qed

lemma cache_image_image:
  assumes "length bs = RECORD_SIZE"
  shows "cache_image (image_cache bs) = bs" "wf_layout (image_cache bs)"
proof -
  have total: "length bs = sum_list cache_sizes"
    by (simp add: assms RECORD_SIZE_def cache_sizes_def)
  note cs = cache_chunks_of_chunks [OF chunks_lengths [OF total]]
  show "cache_image (image_cache bs) = bs"
    by (simp add: cache_image_def image_cache_def cs concat_chunks [OF total])
  show "wf_layout (image_cache bs)" by (simp add: image_cache_def cs)
qed

lemma wf_zero_layout: "wf_layout zero_cache"
  by (simp add: wf_layout_def zero_cache_def wf_meta_def zero_meta_def sized_notification_list_def
      zero_notification_list_def WATCH_NOTIFICATION_CAPACITY_def sized_notification_def
      zero_notification_def list_all_iff)

section \<open>The checksum\<close>

lemma hash_prime_inverse: "(h * 16777619) * 899433627 = (h :: u32)"
proof -
  have "(16777619 :: u32) * 899433627 = 1" by simp
  then show ?thesis by (simp only: mult.assoc mult_1_right)
qed

lemma xor_cancel_left: "a XOR b = a' XOR b \<longleftrightarrow> a = (a' :: u32)"
  by (metis xor.assoc xor.right_neutral xor_self_eq)

lemma xor_cancel_right: "a XOR b = a XOR b' \<longleftrightarrow> b = (b' :: u32)"
  by (metis xor.assoc xor.left_neutral xor_self_eq)

lemma ucast_u8_u32_inject: "(ucast (a :: u8) :: u32) = ucast b \<longleftrightarrow> a = b"
proof
  assume "(ucast a :: u32) = ucast b"
  then have "unat (ucast a :: u32) = unat (ucast b :: u32)" by simp
  moreover have "unat (ucast x :: u32) = unat x" for x :: u8
    by (simp add: unsigned_ucast_eq take_bit_nat_eq_self less_trans [OF unat_u8_less])
  ultimately show "a = b" by (simp add: word_unat_eq_iff)
qed simp

interpretation fnv: byte_sensitive_hash hash_step
proof
  fix h h' :: u32 and b b' :: u8
  show "hash_step h b = hash_step h' b \<Longrightarrow> h = h'"
    using hash_prime_inverse by (metis hash_step_def xor_cancel_left)
  show "hash_step h b = hash_step h b' \<Longrightarrow> b = b'"
    using hash_prime_inverse by (metis hash_step_def xor_cancel_right ucast_u8_u32_inject)
qed

text \<open>The image the checksum is computed on: the four bytes of the field itself are zero.\<close>

definition masked :: "u8 list \<Rightarrow> u8 list" where
  "masked bs = take 12 bs @ [0, 0, 0, 0] @ drop 16 bs"

lemma length_masked: "length bs = RECORD_SIZE \<Longrightarrow> length (masked bs) = RECORD_SIZE"
  by (simp add: masked_def RECORD_SIZE_def)

lemma nth_masked:
  assumes "length bs = RECORD_SIZE"
  shows "masked bs ! k = (if 12 \<le> k \<and> k < 16 then 0 else bs ! k)"
proof -
  have "[0, 0, 0, 0] = replicate 4 (0 :: u8)" by (simp add: numeral_eq_Suc)
  then have "masked bs = take 12 bs @ replicate 4 0 @ drop 16 bs" by (simp add: masked_def)
  with assms show ?thesis by (auto simp: nth_append RECORD_SIZE_def)
qed

lemma masked_update:
  assumes "length bs = RECORD_SIZE" "\<not> (12 \<le> i \<and> i < 16)"
  shows "masked (bs[i := b]) = (masked bs)[i := b]"
proof (rule nth_equalityI)
  show "length (masked (bs[i := b])) = length ((masked bs)[i := b])"
    using assms(1) by (simp add: length_masked)
next
  fix k assume "k < length (masked (bs[i := b]))"
  then show "masked (bs[i := b]) ! k = (masked bs)[i := b] ! k"
    using assms by (cases "k = i") (auto simp: nth_masked length_masked)
qed

lemma chunks_header:
  assumes "length bs = RECORD_SIZE"
  shows "chunks cache_sizes bs =
     [take 4 bs, take 4 (drop 4 bs), take 4 (drop 8 bs), take 4 (drop 12 bs)] @
     chunks (drop 4 cache_sizes) (drop 16 bs)"
  by (simp add: cache_sizes_def)

lemma image_of_masked:
  assumes "length bs = RECORD_SIZE"
  shows "cache_image ((image_cache bs)\<lparr>checksum := 0\<rparr>) = masked bs"
proof -
  let ?cs = "chunks cache_sizes bs"
  have total: "length bs = sum_list cache_sizes"
    by (simp add: assms RECORD_SIZE_def cache_sizes_def)
  have zero: "word_bytes (0 :: u32) = [0, 0, 0, 0]" by code_simp
  have "cache_chunks ((cache_of_chunks ?cs)\<lparr>checksum := 0\<rparr>) =
      (cache_chunks (cache_of_chunks ?cs))[3 := [0, 0, 0, 0]]"
    by (simp add: cache_chunks_def zero)
  also have "\<dots> = ?cs[3 := [0, 0, 0, 0]]"
    by (simp only: cache_chunks_of_chunks(1) [OF chunks_lengths [OF total]])
  also have "\<dots> = [take 4 bs, take 4 (drop 4 bs), take 4 (drop 8 bs), [0, 0, 0, 0]] @
      chunks (drop 4 cache_sizes) (drop 16 bs)"
    by (simp add: chunks_header [OF assms])
  finally have eq: "cache_chunks ((cache_of_chunks ?cs)\<lparr>checksum := 0\<rparr>) =
      [take 4 bs, take 4 (drop 4 bs), take 4 (drop 8 bs), [0, 0, 0, 0]] @
      chunks (drop 4 cache_sizes) (drop 16 bs)" .
  have "cache_image ((image_cache bs)\<lparr>checksum := 0\<rparr>) =
      (take 4 bs @ take 4 (drop 4 bs) @ take 4 (drop 8 bs)) @ [0, 0, 0, 0] @
      concat (chunks (drop 4 cache_sizes) (drop 16 bs))"
    unfolding cache_image_def image_cache_def eq
    by (simp only: concat_append concat.simps append_assoc append_Nil append_Cons append_Nil2)
  also have "concat (chunks (drop 4 cache_sizes) (drop 16 bs)) = drop 16 bs"
    by (rule concat_chunks) (simp add: assms RECORD_SIZE_def cache_sizes_def)
  also have "take 4 bs @ take 4 (drop 4 bs) @ take 4 (drop 8 bs) = take 12 bs"
  proof -
    have "take (4 + (4 + 4)) bs = take 4 bs @ take 4 (drop 4 bs) @ take 4 (drop (4 + 4) bs)"
      by (simp only: take_add drop_drop)
    then show ?thesis by simp
  qed
  finally show ?thesis by (simp add: masked_def)
qed

lemma checksum_of_image:
  assumes "length bs = RECORD_SIZE"
  shows "record_checksum (image_cache bs) = foldl hash_step 2166136261 (masked bs)"
    "checksum (image_cache bs) = bytes_word (take 4 (drop 12 bs))"
  by (simp_all add: record_checksum_def image_of_masked [OF assms])
     (simp add: image_cache_def cache_of_chunks_def chunks_header [OF assms])

lemma bytes_word_u32_inject:
  "length bs = 4 \<Longrightarrow> length bs' = 4 \<Longrightarrow> (bytes_word bs :: u32) = bytes_word bs' \<Longrightarrow> bs = bs'"
  by (metis word_bytes_word_sizes(3))

lemma checksum_mismatch:
  assumes n: "length bs = RECORD_SIZE" and i: "i < RECORD_SIZE" and b: "b \<noteq> bs ! i"
    and ok: "checksum (image_cache bs) = record_checksum (image_cache bs)"
  shows "checksum (image_cache (bs[i := b])) \<noteq> record_checksum (image_cache (bs[i := b]))"
proof -
  have n': "length (bs[i := b]) = RECORD_SIZE" by (simp add: n)
  show ?thesis
  proof (cases "12 \<le> i \<and> i < 16")
    case True
    then have same: "masked (bs[i := b]) = masked bs" by (simp add: masked_def)
    have "take 4 (drop 12 (bs[i := b])) \<noteq> take 4 (drop 12 bs)"
    proof
      assume "take 4 (drop 12 (bs[i := b])) = take 4 (drop 12 bs)"
      moreover obtain j where j: "i = 12 + j" "j < 4"
        using True by (intro that [of "i - 12"]) auto
      ultimately have "take 4 (drop 12 (bs[i := b])) ! j = take 4 (drop 12 bs) ! j" by simp
      then show False using n i b j(2) unfolding j(1) by (simp add: RECORD_SIZE_def)
    qed
    moreover have "length (take 4 (drop 12 xs)) = 4" if "length xs = RECORD_SIZE" for xs :: "u8 list"
      using that by (simp add: RECORD_SIZE_def)
    ultimately have "(bytes_word (take 4 (drop 12 (bs[i := b]))) :: u32) \<noteq> bytes_word (take 4 (drop 12 bs))"
      using bytes_word_u32_inject n n' by metis
    with same show ?thesis
      using ok by (simp add: checksum_of_image [OF n] checksum_of_image [OF n'])
  next
    case False
    then have "masked (bs[i := b]) = (masked bs)[i := b]" "masked bs ! i = bs ! i" "i < length (masked bs)"
      using n i by (auto intro!: masked_update simp: nth_masked length_masked)
    with b have "foldl hash_step 2166136261 (masked (bs[i := b])) \<noteq> foldl hash_step 2166136261 (masked bs)"
      by (simp add: fnv.foldl_list_update)
    moreover have "take 4 (drop 12 (bs[i := b])) = take 4 (drop 12 bs)"
      using False by (auto simp: drop_update_swap drop_update_cancel take_update_cancel not_le)
    ultimately show ?thesis
      using ok by (simp add: checksum_of_image [OF n] checksum_of_image [OF n'])
  qed
qed

text \<open>
  C7. No single damaged byte passes: if a 912-byte image is a valid cache record, then changing
  any one of its bytes to another value, be it in the header, the data, the padding or the
  checksum itself, gives an image that is not valid.
\<close>

theorem single_byte_corruption_detected:
  assumes "length bs = 912" and "watch_cache_valid (image_cache bs)"
    and "i < 912" and "b \<noteq> bs ! i"
  shows "\<not> watch_cache_valid (image_cache (bs[i := b]))"
  using checksum_mismatch [of bs i b] assms
  by (simp add: RECORD_SIZE_def watch_cache_valid_def)

section \<open>Sealed records are valid\<close>

lemma record_checksum_seal [simp]: "record_checksum (r\<lparr>checksum := x\<rparr>) = record_checksum r"
  by (simp add: record_checksum_def)

lemma seal_fields [simp]:
  "record_checksum (watch_cache_seal r) = record_checksum r"
  "checksum (watch_cache_seal r) = record_checksum r"
  "magic (watch_cache_seal r) = magic r"
  "schema_version (watch_cache_seal r) = schema_version r"
  "record_size (watch_cache_seal r) = record_size r"
  "weather_meta (watch_cache_seal r) = weather_meta r"
  "activity_meta (watch_cache_seal r) = activity_meta r"
  "notifications_meta (watch_cache_seal r) = notifications_meta r"
  "music_meta (watch_cache_seal r) = music_meta r"
  "application_meta (watch_cache_seal r) = application_meta r"
  "connection_meta (watch_cache_seal r) = connection_meta r"
  "cached_temperature_c (watch_cache_seal r) = cached_temperature_c r"
  "cached_weather_condition (watch_cache_seal r) = cached_weather_condition r"
  "cached_steps (watch_cache_seal r) = cached_steps r"
  "cached_notifications (watch_cache_seal r) = cached_notifications r"
  "cached_music_title (watch_cache_seal r) = cached_music_title r"
  "cached_music_playing (watch_cache_seal r) = cached_music_playing r"
  "cached_active_screen (watch_cache_seal r) = cached_active_screen r"
  "synchronized_revision (watch_cache_seal r) = synchronized_revision r"
  by (simp_all add: watch_cache_seal_def)

text \<open>
  The record as the runtime keeps it: the members have their sizes, the texts are terminated,
  and the record is valid.
\<close>

definition wf_cache :: "watch_cache_record \<Rightarrow> bool" where
  "wf_cache r \<longleftrightarrow>
     wf_layout r \<and> cstring_array 32 (cached_weather_condition r) \<and>
     cstring_array 64 (cached_music_title r) \<and> list_all wf_notification (entries (cached_notifications r)) \<and>
     watch_cache_valid r"

lemma valid_iff:
  "watch_cache_valid r \<longleftrightarrow>
     magic r = WATCH_CACHE_MAGIC \<and> schema_version r = WATCH_CACHE_SCHEMA_VERSION \<and>
     record_size r = of_nat RECORD_SIZE \<and> valid_screen (cached_active_screen r) \<and>
     unat (stored_count (cached_notifications r)) \<le> WATCH_NOTIFICATION_CAPACITY \<and>
     cursor_ok (stored_count (cached_notifications r)) (active_index (cached_notifications r)) \<and>
     checksum r = record_checksum r"
  by (simp add: watch_cache_valid_def valid_screen_def cursor_ok_def less_eq_watch_screen_def)

lemma sized_notification_list_wf:
  "wf_notification_list l \<Longrightarrow> sized_notification_list l"
  by (auto simp: wf_notification_list_def sized_notification_list_def WATCH_NOTIFICATION_CAPACITY_def
      list_all_iff wf_notification_def sized_notification_def cstring_array_def)

lemma wf_meta_updates [simp]:
  "wf_meta (refresh m now) = wf_meta m" "wf_meta (m\<lparr>stale := b\<rparr>) = wf_meta m"
  "wf_meta (m\<lparr>version := v, stale := b\<rparr>) = wf_meta m"
  by (simp_all add: wf_meta_def refresh_def)

lemma wf_layout_seal [simp]: "wf_layout (watch_cache_seal r) = wf_layout r"
  by (simp add: wf_layout_def watch_cache_seal_def)

lemma valid_screen_small: "valid_screen s \<Longrightarrow> screen_num s < 4294967296"
  by (simp add: valid_screen_num)

lemma cstring_copy_text [wf_intros]: "cstring_array n dst \<Longrightarrow> cstring_array n (copy_text dst src)"
  by (auto simp: copy_text_def cstring_array_def intro: set_update_memI
      cstring_array_strncpy_terminated [of dst "length dst" src, unfolded cstring_array_def, THEN conjunct2])

lemma length_copy_text [simp]: "length (copy_text dst src) = length dst"
  by (simp add: copy_text_def)

lemma cstr_copy_text: "length dst = Suc n \<Longrightarrow> cstr (copy_text dst src) = take n (cstr src)"
  by (simp add: copy_text_def cstr_strncpy_terminated)

text \<open>What a record must satisfy for its sealed version to be well-formed.\<close>

definition sealable :: "watch_cache_record \<Rightarrow> bool" where
  "sealable r \<longleftrightarrow>
     wf_layout r \<and> cstring_array 32 (cached_weather_condition r) \<and>
     cstring_array 64 (cached_music_title r) \<and> list_all wf_notification (entries (cached_notifications r)) \<and>
     magic r = WATCH_CACHE_MAGIC \<and> schema_version r = WATCH_CACHE_SCHEMA_VERSION \<and>
     record_size r = of_nat RECORD_SIZE \<and> valid_screen (cached_active_screen r) \<and>
     unat (stored_count (cached_notifications r)) \<le> WATCH_NOTIFICATION_CAPACITY \<and>
     cursor_ok (stored_count (cached_notifications r)) (active_index (cached_notifications r))"

lemma wf_cache_seal: "wf_cache (watch_cache_seal r) \<longleftrightarrow> sealable r"
  by (auto simp: wf_cache_def valid_iff sealable_def)

lemma wf_cache_sealable: "wf_cache r \<Longrightarrow> sealable r"
  by (auto simp: wf_cache_def valid_iff sealable_def)

lemma wf_cache_init [simp, wf_intros]: "wf_cache watch_cache_init"
proof -
  have "wf_notification_list (cached_notifications zero_cache)" by (simp add: zero_cache_def)
  then show ?thesis
    using wf_zero_layout
    unfolding watch_cache_init_def wf_cache_seal
    by (simp add: sealable_def wf_layout_def wf_notification_list_def)
       (simp add: zero_cache_def wf_meta_def zero_meta_def)
qed

lemma wf_cache_capture_sync [wf_intros]:
  assumes "wf_cache r" "wf_state s"
  shows "wf_cache (watch_cache_capture_sync r s n now)"
  using wf_cache_sealable [OF assms(1)] assms(2)
  unfolding watch_cache_capture_sync_def wf_cache_seal sealable_def wf_layout_def wf_state_def
  by (simp add: sized_notification_list_wf wf_notification_list_def cstring_copy_text)

lemma wf_cache_mark_stale [wf_intros]: "wf_cache r \<Longrightarrow> wf_cache (watch_cache_mark_stale r now)"
  using wf_cache_sealable [of r]
  by (simp add: watch_cache_mark_stale_def wf_cache_seal) (simp add: sealable_def wf_layout_def)

lemma capture_application_valid:
  assumes "wf_cache r" "valid_screen (active_screen s)"
  shows "wf_cache (watch_cache_capture_application r s now) \<longleftrightarrow>
    cursor_ok (stored_count (cached_notifications r)) (active_index (notifications s))"
  using wf_cache_sealable [OF assms(1)] assms(2)
  unfolding watch_cache_capture_application_def wf_cache_seal sealable_def wf_layout_def
  by (simp add: sized_notification_list_def valid_screen_small)

text \<open>
  C17. Every record the code seals is one it will accept again: initialisation gives a valid
  record, capturing a well-formed state after a synchronisation and marking the record stale
  keep it valid, and capturing the application state keeps it valid exactly when the cursor of
  the watch fits the list that was cached last. Nothing in the function checks that condition.
\<close>

theorem cache_stays_valid:
  assumes "wf_cache r" and "wf_state s"
  shows "wf_cache watch_cache_init \<and> wf_cache (watch_cache_capture_sync r s n now) \<and>
    wf_cache (watch_cache_mark_stale r now) \<and>
    (wf_cache (watch_cache_capture_application r s now) \<longleftrightarrow>
       cursor_ok (stored_count (cached_notifications r)) (active_index (notifications s)))"
  using assms capture_application_valid [of r s now]
  by (simp add: wf_cache_capture_sync wf_cache_mark_stale wf_state_def)

definition browsed_state :: watch_state where
  "browsed_state = watch_state_init
     \<lparr>notifications := zero_notification_list\<lparr>total_count := 2, stored_count := 2, active_index := 1\<rparr>\<rparr>"

lemma wf_browsed_state: "wf_state browsed_state"
  using wf_state_init wf_zero_notification_list
  by (simp add: browsed_state_def wf_state_def wf_notification_list_def cursor_ok_def
      WATCH_NOTIFICATION_CAPACITY_def)

text \<open>
  The fresh record knows no notification, so capturing a cursor on the second one seals a
  record that the next start rejects.
\<close>

theorem cache_stays_valid_witness:
  "wf_state browsed_state \<and> \<not> wf_cache (watch_cache_capture_application watch_cache_init browsed_state 0)"
  using cache_stays_valid [OF wf_cache_init wf_browsed_state, of 0 0] wf_browsed_state
  by (simp add: browsed_state_def watch_cache_init_def zero_cache_def zero_notification_list_def
      cursor_ok_def)

text \<open>The image of the fresh record, damaged in its last byte of padding.\<close>

theorem single_byte_corruption_detected_witness:
  "\<not> watch_cache_valid (image_cache ((cache_image watch_cache_init)[911 := (cache_image watch_cache_init ! 911) + 1]))"
proof -
  have layout: "wf_layout watch_cache_init" and valid: "watch_cache_valid watch_cache_init"
    using wf_cache_init by (simp_all add: wf_cache_def)
  have "length (cache_image watch_cache_init) = 912"
    using length_cache_image [OF layout] by (simp add: RECORD_SIZE_def)
  then show ?thesis
    by (rule single_byte_corruption_detected) (simp_all add: image_cache_image [OF layout] valid)
qed

section \<open>Capture and restore\<close>

lemma restore_invalid: "\<not> watch_cache_valid r \<Longrightarrow> watch_cache_restore r t = (False, t)"
  by (simp add: watch_cache_restore_def)

text \<open>The five groups of the restoration, one field at a time.\<close>

lemma restore_fields:
  assumes "watch_cache_valid r"
  shows "(case watch_cache_restore r t of (restored, t') \<Rightarrow>
    restored = (version (weather_meta r) > 0 \<or> version (activity_meta r) > 0 \<or>
      version (notifications_meta r) > 0 \<or> version (music_meta r) > 0 \<or>
      version (application_meta r) > 0) \<and>
    host_data_stale t' = (version (weather_meta r) > 0 \<or> version (activity_meta r) > 0 \<or>
      version (notifications_meta r) > 0 \<or> version (music_meta r) > 0) \<and>
    temperature_c t' =
      (if version (weather_meta r) > 0 then cached_temperature_c r else temperature_c t) \<and>
    weather_condition t' =
      (if version (weather_meta r) > 0 then copy_text (weather_condition t) (cached_weather_condition r)
       else weather_condition t) \<and>
    steps t' = (if version (activity_meta r) > 0 then cached_steps r else steps t) \<and>
    notifications t' =
      (if version (notifications_meta r) > 0 then cached_notifications r else notifications t) \<and>
    music_title t' =
      (if version (music_meta r) > 0 then copy_text (music_title t) (cached_music_title r)
       else music_title t) \<and>
    music_playing t' =
      (if version (music_meta r) > 0 then cached_music_playing r \<noteq> 0 else music_playing t) \<and>
    active_screen t' =
      (if version (application_meta r) > 0 then cached_active_screen r else active_screen t) \<and>
    connection t' = WATCH_CONNECTION_OFFLINE \<and>
    music_action_feedback t' = music_action_feedback t \<and>
    music_action_pending t' = music_action_pending t)"
  using assms by (simp add: watch_cache_restore_def)

lemma wf_restore [wf_intros]:
  assumes "wf_cache r" "wf_state t"
  shows "wf_state (snd (watch_cache_restore r t))"
proof -
  from assms(1) have v: "watch_cache_valid r" and s: "sealable r"
    by (simp_all add: wf_cache_def wf_cache_sealable [OF assms(1)])
  from restore_fields [OF v, of t] s assms(2) show ?thesis
    by (auto simp: wf_state_def sealable_def wf_notification_list_def wf_layout_def
        sized_notification_list_def WATCH_NOTIFICATION_CAPACITY_def split_beta intro: cstring_copy_text)
qed

lemma restore_stamp:
  assumes "watch_cache_valid r"
    and "version (weather_meta r) > 0" "version (activity_meta r) > 0"
    "version (notifications_meta r) > 0" "version (music_meta r) > 0"
    and "updated_at_ms (weather_meta r) = now" "updated_at_ms (activity_meta r) = now"
    "updated_at_ms (notifications_meta r) = now" "updated_at_ms (music_meta r) = now"
  shows "host_data_updated_at_ms (snd (watch_cache_restore r t)) = now"
  using assms by (simp add: watch_cache_restore_def later_stamp_def)

lemma cstr_copy_fits:
  assumes "cstring_array (Suc n) src" "length dst = Suc n"
  shows "cstr (copy_text dst src) = cstr src"
  using assms cstring_array_fits [OF assms(1)] by (simp add: cstr_copy_text)

text \<open>
  C10. What is captured is what is restored: restoring the record captured from a well-formed
  state, into any well-formed state, brings back its temperature, condition, steps,
  notifications with their cursor, title and playing state, marks the data stale with the
  capture's time, and leaves the watch offline. The four version counters must not be at their
  last value, because a counter that wraps to 0 says that nothing was captured.
\<close>

theorem capture_restore_roundtrip:
  assumes "wf_cache r" and "wf_state s" and "wf_state t"
    and "version (weather_meta r) + 1 \<noteq> 0" and "version (activity_meta r) + 1 \<noteq> 0"
    and "version (notifications_meta r) + 1 \<noteq> 0" and "version (music_meta r) + 1 \<noteq> 0"
  shows "(case watch_cache_restore (watch_cache_capture_sync r s n now) t of (restored, t') \<Rightarrow>
    restored \<and> wf_state t' \<and>
    temperature_c t' = temperature_c s \<and> cstr (weather_condition t') = cstr (weather_condition s) \<and>
    steps t' = steps s \<and> notifications t' = notifications s \<and>
    cstr (music_title t') = cstr (music_title s) \<and> music_playing t' = music_playing s \<and>
    host_data_stale t' \<and> host_data_updated_at_ms t' = now \<and> connection t' = WATCH_CONNECTION_OFFLINE)"
proof -
  let ?r = "watch_cache_capture_sync r s n now"
  have wf: "wf_cache ?r" by (rule wf_cache_capture_sync [OF assms(1,2)])
  then have valid: "watch_cache_valid ?r" by (simp add: wf_cache_def)
  have captured: "version (weather_meta ?r) > 0" "version (activity_meta ?r) > 0"
    "version (notifications_meta ?r) > 0" "version (music_meta ?r) > 0"
    "updated_at_ms (weather_meta ?r) = now" "updated_at_ms (activity_meta ?r) = now"
    "updated_at_ms (notifications_meta ?r) = now" "updated_at_ms (music_meta ?r) = now"
    "cached_temperature_c ?r = temperature_c s" "cached_steps ?r = steps s"
    "cached_notifications ?r = notifications s"
    "cached_music_playing ?r \<noteq> 0 \<longleftrightarrow> music_playing s"
    "cached_weather_condition ?r = copy_text (cached_weather_condition r) (weather_condition s)"
    "cached_music_title ?r = copy_text (cached_music_title r) (music_title s)"
    using assms(4-7) by (simp_all add: watch_cache_capture_sync_def refresh_def word_neq_0_conv)
  from assms have arrays: "cstring_array (Suc 31) (weather_condition s)" "cstring_array (Suc 63) (music_title s)"
    "length (cached_weather_condition r) = Suc 31" "length (cached_music_title r) = Suc 63"
    "length (weather_condition t) = Suc 31" "length (music_title t) = Suc 63"
    by (auto simp: wf_state_def wf_cache_def dest: cstring_array_length)
  have texts:
    "cstr (copy_text (weather_condition t) (copy_text (cached_weather_condition r) (weather_condition s))) =
       cstr (weather_condition s)"
    "cstr (copy_text (music_title t) (copy_text (cached_music_title r) (music_title s))) =
       cstr (music_title s)"
    using cstr_copy_fits [OF arrays(1,3)] cstr_copy_fits [OF arrays(2,4)] arrays
      cstring_array_fits [OF arrays(1)] cstring_array_fits [OF arrays(2)]
    by (simp_all add: cstr_copy_text)
  show ?thesis
    using restore_fields [OF valid, of t] wf_restore [OF wf assms(3)]
      restore_stamp [OF valid captured(1-8), of t] captured texts
    by (simp add: split_beta)
qed

theorem capture_restore_roundtrip_witness:
  "fst (watch_cache_restore (watch_cache_capture_sync watch_cache_init browsed_state 7 1000) watch_state_init) \<and>
   notifications (snd (watch_cache_restore
     (watch_cache_capture_sync watch_cache_init browsed_state 7 1000) watch_state_init)) =
   notifications browsed_state"
proof -
  have "version (weather_meta watch_cache_init) = 0" "version (activity_meta watch_cache_init) = 0"
    "version (notifications_meta watch_cache_init) = 0" "version (music_meta watch_cache_init) = 0"
    by (simp_all add: watch_cache_init_def zero_cache_def zero_meta_def)
  then show ?thesis
    using capture_restore_roundtrip [OF wf_cache_init wf_browsed_state wf_state_init, where n = 7 and now = 1000]
    by (simp add: split_beta)
qed

end
