(* ===== verification/Cache_Storage.thy ===== *)
theory Cache_Storage
  imports Watch_Cache
begin

text \<open>
  The file that holds the cache record (\<open>watch/src/cache/watch_cache_storage.c\<close>, the branch
  for the native simulator): the record is written to \<open><path>.tmp\<close> and renamed over the old
  file. The file system is a map from names to contents, the C library calls on it may fail in
  the ways a \<open>faults\<close> record says, and \<open>rename\<close> moves whatever content the temporary file has.
  A save yields every file system it goes through, one per call, so that statements about
  all of them are statements about a program that is stopped at any point while the machine runs
  on. A loss of power is not covered: the code never calls \<open>fsync\<close>, so the disk may then keep the
  renaming and lose the data; what a load accepts of such a file is stated separately.
  \<open>getenv\<close> and the clocks are arguments.
\<close>

section \<open>Calls and their faults\<close>

type_synonym files = "string \<rightharpoonup> u8 list"

text \<open>
  Reading: whether \<open>fopen\<close> is refused although the file exists, how many bytes can be read
  before an input error, whether \<open>fclose\<close> succeeds.
\<close>

record load_faults =
  open_refused :: bool
  readable :: nat
  load_close_ok :: bool

text \<open>
  Writing: whether each call succeeds and how many bytes \<open>fwrite\<close> accepts. The stream is buffered,
  so what the temporary file holds is known only after a successful \<open>fflush\<close> and \<open>fclose\<close>;
  otherwise it is anything: after \<open>fwrite\<close>, after a failed \<open>fflush\<close>, and at the end when one of
  the two has failed.
\<close>

record save_faults =
  open_ok :: bool
  accepted :: nat
  spilled :: "u8 list"
  flush_ok :: bool
  half_flushed :: "u8 list"
  save_close_ok :: bool
  leftover :: "u8 list"
  rename_ok :: bool
  remove_ok :: bool

section \<open>Operations\<close>

definition cache_path :: "string option \<Rightarrow> string option" where
  "cache_path env = (case env of None \<Rightarrow> None | Some path \<Rightarrow> if path \<noteq> [] then Some path else None)"

definition watch_cache_storage_load ::
    "string option \<Rightarrow> load_faults \<Rightarrow> files \<Rightarrow> errno + watch_cache_record" where
  "watch_cache_storage_load env faults fs =
     (case cache_path env of
        None \<Rightarrow> Inl ENOTSUP
      | Some path \<Rightarrow>
          (case fs path of
             None \<Rightarrow> Inl ENOENT
           | Some content \<Rightarrow>
               if open_refused faults then Inl EIO
               else
                 let count = min RECORD_SIZE (min (readable faults) (length content));
                     trailing_eof = (length content \<le> count \<or> readable faults \<le> count);
                     candidate = image_cache (take count content)
                 in if count \<noteq> RECORD_SIZE \<or> \<not> trailing_eof \<or> \<not> load_close_ok faults \<or>
                       \<not> watch_cache_valid candidate
                    then Inl EBADMSG
                    else Inr candidate))"

definition temporary_path :: "string \<Rightarrow> string" where
  "temporary_path path = path @ ''.tmp''"

text \<open>The effects of POSIX \<open>rename\<close> and \<open>remove\<close> on the names.\<close>

definition rename_file :: "string \<Rightarrow> string \<Rightarrow> files \<Rightarrow> files" where
  "rename_file old new fs = fs(new := fs old, old := None)"

definition remove_file :: "string \<Rightarrow> files \<Rightarrow> files" where
  "remove_file name fs = fs(name := None)"

text \<open>
  The result of a save, and the file systems it goes through: before it, and after \<open>fopen\<close>,
  \<open>fwrite\<close>, \<open>fflush\<close>, \<open>fclose\<close> and the last call.
\<close>

definition watch_cache_storage_save ::
    "string option \<Rightarrow> save_faults \<Rightarrow> watch_cache_record \<Rightarrow> files \<Rightarrow> (errno + unit) \<times> files list" where
  "watch_cache_storage_save env faults cache fs =
     (case cache_path env of
        None \<Rightarrow> (Inl ENOTSUP, [fs])
      | Some path \<Rightarrow>
          (let temporary = temporary_path path in
           if length temporary \<ge> 512 then (Inl ENAMETOOLONG, [fs])
           else if \<not> open_ok faults then (Inl EIO, [fs])
           else
             let opened = fs(temporary \<mapsto> []);
                 stream = take (accepted faults) (cache_image cache);
                 written = (length stream = length (cache_image cache));
                 fs_written = opened(temporary \<mapsto> spilled faults);
                 flushed = flush_ok faults;
                 fs_flushed = fs_written(temporary \<mapsto> (if flushed then stream else half_flushed faults));
                 closed = save_close_ok faults;
                 fs_closed = fs_flushed(temporary \<mapsto> (if flushed \<and> closed then stream else leftover faults));
                 removed = (if remove_ok faults then remove_file temporary fs_closed else fs_closed);
                 stages = [fs, opened, fs_written, fs_flushed, fs_closed]
             in if \<not> written \<or> \<not> flushed \<or> \<not> closed then (Inl EIO, stages @ [removed])
                else if \<not> rename_ok faults then (Inl EIO, stages @ [removed])
                else (Inr (), stages @ [rename_file temporary path fs_closed])))"

definition watch_cache_storage_now_ms :: "i64 \<Rightarrow> i64 \<Rightarrow> u64" where
  "watch_cache_storage_now_ms now uptime = (if now \<noteq> - 1 then now * 1000 else uptime)"

text \<open>The other branch of the file, for boards without a host file system.\<close>

definition board_storage_load :: "files \<Rightarrow> errno + watch_cache_record" where
  "board_storage_load fs = Inl ENOTSUP"

definition board_storage_save :: "watch_cache_record \<Rightarrow> files \<Rightarrow> (errno + unit) \<times> files list" where
  "board_storage_save cache fs = (Inl ENOTSUP, [fs])"

definition board_storage_now_ms :: "i64 \<Rightarrow> u64" where
  "board_storage_now_ms uptime = uptime"

section \<open>Atomicity\<close>

lemma temporary_path_neq [simp]: "temporary_path path \<noteq> path" "path \<noteq> temporary_path path"
  by (simp_all add: temporary_path_def)

lemma save_cases:
  assumes "watch_cache_storage_save (Some path) faults cache fs = (result, disk)"
    and "path \<noteq> []"
  shows "(\<forall>fs' \<in> set disk. (fs' path = fs path \<or> fs' path = Some (cache_image cache)) \<and>
            (\<forall>f. f \<noteq> path \<and> f \<noteq> temporary_path path \<longrightarrow> fs' f = fs f)) \<and>
    (case result of
       Inr _ \<Rightarrow> last disk path = Some (cache_image cache) \<and> last disk (temporary_path path) = None \<and>
          (\<forall>fs' \<in> set (butlast disk). fs' path = fs path)
     | Inl _ \<Rightarrow> \<forall>fs' \<in> set disk. fs' path = fs path)"
  using assms
  by (auto simp: watch_cache_storage_save_def cache_path_def rename_file_def remove_file_def Let_def
      split: if_splits)

lemma save_trace: "watch_cache_storage_save env faults cache fs = (result, disk) \<Longrightarrow> disk \<noteq> []"
  by (auto simp: watch_cache_storage_save_def Let_def split: option.splits if_splits)

text \<open>
  C9. A save is atomic: whichever calls fail, however the stream is buffered, and after whichever
  call the program is stopped, the cache file holds either its old content, untouched, or the
  complete new image. A save that reports success has changed it once, by its last call, and left no
  temporary file, one that reports an error has at no time changed it; and no file but it and the
  temporary one is ever touched. The temporary file is renamed with the content it has,
  so this rests on the check of \<open>fwrite\<close>, \<open>fflush\<close> and \<open>fclose\<close> before the renaming.
\<close>

theorem save_atomic:
  assumes "watch_cache_storage_save (Some path) faults cache fs = (result, disk)"
    and "path \<noteq> []"
  shows "(\<forall>fs' \<in> set disk. (fs' path = fs path \<or> fs' path = Some (cache_image cache)) \<and>
            (\<forall>f. f \<noteq> path \<and> f \<noteq> temporary_path path \<longrightarrow> fs' f = fs f)) \<and>
    (case result of
       Inr _ \<Rightarrow> last disk path = Some (cache_image cache) \<and> last disk (temporary_path path) = None \<and>
          (\<forall>fs' \<in> set (butlast disk). fs' path = fs path)
     | Inl _ \<Rightarrow> \<forall>fs' \<in> set disk. fs' path = fs path)"
  by (rule save_cases [OF assms])

definition no_save_faults :: save_faults where
  "no_save_faults = \<lparr>open_ok = True, accepted = 912, spilled = [], flush_ok = True,
                     half_flushed = [], save_close_ok = True, leftover = [], rename_ok = True,
                     remove_ok = True\<rparr>"

definition no_load_faults :: load_faults where
  "no_load_faults = \<lparr>open_refused = False, readable = 1000000, load_close_ok = True\<rparr>"

text \<open>A disk that is full after 100 bytes: the save fails and the old file stays.\<close>

theorem save_atomic_witness:
  "(case watch_cache_storage_save (Some ''cache'') (no_save_faults\<lparr>accepted := 100\<rparr>)
       watch_cache_init [''cache'' \<mapsto> [1, 2, 3]] of
     (result, disk) \<Rightarrow> \<forall>fs \<in> set disk. fs ''cache'' = Some [1, 2, 3])"
proof -
  obtain result disk where save: "watch_cache_storage_save (Some ''cache'')
      (no_save_faults\<lparr>accepted := 100\<rparr>) watch_cache_init [''cache'' \<mapsto> [1, 2, 3]] = (result, disk)"
    by fastforce
  have "length (cache_image watch_cache_init) = 912"
    using wf_cache_init length_cache_image by (simp add: wf_cache_def RECORD_SIZE_def)
  with save have "result = Inl EIO"
    by (auto simp: watch_cache_storage_save_def cache_path_def temporary_path_def
        no_save_faults_def Let_def split: if_splits)
  then show ?thesis using save_atomic [OF save] by (simp add: save)
qed

section \<open>Loading\<close>

text \<open>
  C19. Loading accepts only what the checks admit: a record it returns is valid, has the layout
  of the structure, and is exactly the first 912 bytes of the file; with no input error the file
  has no other byte.
\<close>

theorem load_sound:
  assumes "watch_cache_storage_load (Some path) faults fs = Inr cache"
  shows "watch_cache_valid cache \<and> wf_layout cache \<and>
    (\<exists>rest. fs path = Some (cache_image cache @ rest) \<and> (rest = [] \<or> readable faults \<le> 912))"
proof -
  from assms obtain content where stored: "fs path = Some content"
    and size: "RECORD_SIZE \<le> length content"
    and cache: "cache = image_cache (take RECORD_SIZE content)" "watch_cache_valid cache"
    and trailing: "length content \<le> RECORD_SIZE \<or> readable faults \<le> RECORD_SIZE"
    by (auto simp: watch_cache_storage_load_def cache_path_def Let_def min_def
        split: option.splits if_splits)
  have "length (take RECORD_SIZE content) = RECORD_SIZE" using size by simp
  note image = cache_image_image [OF this]
  have "fs path = Some (cache_image cache @ drop RECORD_SIZE content)"
    by (simp add: cache(1) image stored)
  moreover have "drop RECORD_SIZE content = [] \<or> readable faults \<le> 912"
    using trailing by (simp add: RECORD_SIZE_def)
  moreover have "wf_layout cache" by (simp add: cache(1) image)
  ultimately show ?thesis using cache(2) by blast
qed

lemma load_image:
  assumes "fs path = Some (cache_image cache)" "wf_layout cache" "watch_cache_valid cache"
    and "path \<noteq> []" "\<not> open_refused faults" "912 \<le> readable faults" "load_close_ok faults"
  shows "watch_cache_storage_load (Some path) faults fs = Inr cache"
  using assms length_cache_image [OF assms(2)]
  by (simp add: watch_cache_storage_load_def cache_path_def RECORD_SIZE_def image_cache_image)

section \<open>The store as an interface\<close>

text \<open>
  What the runtime needs from the storage: a successful put is what the next get returns, and
  a failed put changes nothing that get sees. \<open>put_all\<close> is any series of puts, with the last
  record that was stored.
\<close>

fun put_all :: "('r \<Rightarrow> 'fs \<Rightarrow> bool \<times> 'fs) \<Rightarrow> 'r list \<Rightarrow> 'fs \<Rightarrow> 'r option \<times> 'fs" where
  "put_all put [] fs = (None, fs)"
| "put_all put (r # rs) fs =
     (case put r fs of (ok, fs') \<Rightarrow>
        (case put_all put rs fs' of
           (None, fs'') \<Rightarrow> (if ok then Some r else None, fs'')
         | (Some r', fs'') \<Rightarrow> (Some r', fs'')))"

locale record_store =
  fixes put :: "'r \<Rightarrow> 'fs \<Rightarrow> bool \<times> 'fs"
    and get :: "'fs \<Rightarrow> 'v option"
    and value_of :: "'r \<Rightarrow> 'v"
    and storable :: "'r \<Rightarrow> bool"
  assumes put_ok: "storable r \<Longrightarrow> put r fs = (True, fs') \<Longrightarrow> get fs' = Some (value_of r)"
    and put_failed: "put r fs = (False, fs') \<Longrightarrow> get fs' = get fs"
begin

lemma get_put_all:
  "list_all storable rs \<Longrightarrow> put_all put rs fs = (stored, fs') \<Longrightarrow>
     get fs' = (case stored of None \<Rightarrow> get fs | Some r \<Rightarrow> Some (value_of r))"
proof (induction rs arbitrary: fs stored fs')
  case Nil
  then show ?case by auto
next
  case (Cons r rs)
  obtain ok fs1 where put1: "put r fs = (ok, fs1)" by fastforce
  obtain stored2 fs2 where rest: "put_all put rs fs1 = (stored2, fs2)" by fastforce
  from Cons.prems put1 rest have res: "fs' = fs2"
    "stored = (case stored2 of None \<Rightarrow> if ok then Some r else None | Some r' \<Rightarrow> Some r')"
    by (auto split: option.splits)
  have "get fs2 = (case stored2 of None \<Rightarrow> get fs1 | Some r' \<Rightarrow> Some (value_of r'))"
    using Cons.IH [OF _ rest] Cons.prems(1) by simp
  moreover have "ok \<Longrightarrow> get fs1 = Some (value_of r)" "\<not> ok \<Longrightarrow> get fs1 = get fs"
    using put1 put_ok [of r fs fs1] put_failed [of r fs fs1] Cons.prems(1) by auto
  ultimately show ?case using res by (auto split: option.splits)
qed

end

text \<open>A save with its faults, seen as a put; a load without faults, seen as a get.\<close>

definition storage_put ::
    "string \<Rightarrow> save_faults \<times> watch_cache_record \<Rightarrow> files \<Rightarrow> bool \<times> files" where
  "storage_put path r fs =
     (case watch_cache_storage_save (Some path) (fst r) (snd r) fs of
        (result, disk) \<Rightarrow> (result = Inr (), last disk))"

definition storage_get :: "string \<Rightarrow> files \<Rightarrow> watch_cache_record option" where
  "storage_get path fs =
     (case watch_cache_storage_load (Some path) no_load_faults fs of Inl _ \<Rightarrow> None | Inr r \<Rightarrow> Some r)"

lemma load_cong:
  "fs path = fs' path \<Longrightarrow> watch_cache_storage_load (Some path) faults fs =
     watch_cache_storage_load (Some path) faults fs'"
  by (simp add: watch_cache_storage_load_def cache_path_def)

lemma storage_put_ok:
  assumes "path \<noteq> []" "wf_cache (snd r)" "storage_put path r fs = (True, fs')"
  shows "storage_get path fs' = Some (snd r)"
proof -
  obtain result disk where save: "watch_cache_storage_save (Some path) (fst r) (snd r) fs = (result, disk)"
    by fastforce
  with assms(3) have "result = Inr ()" "fs' = last disk" by (simp_all add: storage_put_def)
  with save_cases [OF save assms(1)] have "fs' path = Some (cache_image (snd r))" by simp
  then show ?thesis
    using load_image [of fs' path "snd r" no_load_faults] assms(1,2)
    by (simp add: storage_get_def no_load_faults_def wf_cache_def)
qed

lemma storage_put_failed:
  assumes "storage_put path r fs = (False, fs')"
  shows "storage_get path fs' = storage_get path fs"
proof -
  obtain result disk where save: "watch_cache_storage_save (Some path) (fst r) (snd r) fs = (result, disk)"
    by fastforce
  with assms have fs': "result \<noteq> Inr ()" "fs' = last disk" by (simp_all add: storage_put_def)
  have "fs' path = fs path"
  proof (cases "path = []")
    case True
    with save fs' show ?thesis by (auto simp: watch_cache_storage_save_def cache_path_def)
  next
    case False
    have "last disk \<in> set disk" using save_trace [OF save] by simp
    moreover obtain e where "result = Inl e" using fs'(1) by (cases result) auto
    ultimately show ?thesis using save_cases [OF save False] fs'(2) by auto
  qed
  then show ?thesis using load_cong [of fs' path fs no_load_faults] by (simp add: storage_get_def)
qed

interpretation cache_store: record_store "storage_put path" "storage_get path" snd
    "\<lambda>r. path \<noteq> [] \<and> wf_cache (snd r)"
  for path :: string
proof
  fix r fs fs'
  show "path \<noteq> [] \<and> wf_cache (snd r) \<Longrightarrow> storage_put path r fs = (True, fs') \<Longrightarrow>
      storage_get path fs' = Some (snd r)"
    using storage_put_ok by blast
  show "storage_put path r fs = (False, fs') \<Longrightarrow> storage_get path fs' = storage_get path fs"
    by (rule storage_put_failed)
qed

text \<open>
  C8. The cache survives any history of saves: after any series of saves of well-formed records,
  each with any faults, loading gives exactly the last record whose save succeeded, bit for bit,
  and what was there at the beginning when none did.
\<close>

theorem load_last_saved:
  assumes "path \<noteq> []" and "list_all (\<lambda>r. wf_cache (snd r)) saves"
    and "put_all (storage_put path) saves fs = (stored, fs')"
  shows "storage_get path fs' =
    (case stored of None \<Rightarrow> storage_get path fs | Some r \<Rightarrow> Some (snd r))"
proof (rule cache_store.get_put_all [OF _ assms(3)])
  show "list_all (\<lambda>r. path \<noteq> [] \<and> wf_cache (snd r)) saves"
    using assms(1,2) by (simp add: list_all_iff)
qed

theorem load_last_saved_witness:
  "storage_get ''cache'' (snd (put_all (storage_put ''cache'')
     [(no_save_faults, watch_cache_init),
      (no_save_faults\<lparr>flush_ok := False\<rparr>, watch_cache_mark_stale watch_cache_init 5)] Map.empty)) =
   Some watch_cache_init"
proof -
  let ?saves = "[(no_save_faults, watch_cache_init),
      (no_save_faults\<lparr>flush_ok := False\<rparr>, watch_cache_mark_stale watch_cache_init 5)]"
  obtain stored fs' where puts: "put_all (storage_put ''cache'') ?saves Map.empty = (stored, fs')"
    by fastforce
  have size: "length (cache_image watch_cache_init) = 912"
    using wf_cache_init length_cache_image by (simp add: wf_cache_def RECORD_SIZE_def)
  have "fst (storage_put ''cache'' (no_save_faults, watch_cache_init) fs)" for fs
    by (simp add: storage_put_def watch_cache_storage_save_def cache_path_def temporary_path_def
        no_save_faults_def size Let_def)
  moreover have "\<not> fst (storage_put ''cache'' (no_save_faults\<lparr>flush_ok := False\<rparr>, c) fs)" for c fs
    by (simp add: storage_put_def watch_cache_storage_save_def cache_path_def temporary_path_def
        no_save_faults_def Let_def)
  ultimately have "stored = Some (no_save_faults, watch_cache_init)"
    using puts by (auto simp: split_beta split: prod.splits if_splits option.splits)
  moreover have "list_all (\<lambda>r. wf_cache (snd r)) ?saves"
    by (simp add: wf_cache_mark_stale)
  ultimately show ?thesis
    using load_last_saved [OF _ _ puts] unfolding puts by simp
qed

theorem load_sound_witness:
  "\<exists>cache. watch_cache_storage_load (Some ''cache'') no_load_faults
      [''cache'' \<mapsto> cache_image watch_cache_init] = Inr cache \<and> wf_layout cache"
proof -
  have "watch_cache_storage_load (Some ''cache'') no_load_faults
      [''cache'' \<mapsto> cache_image watch_cache_init] = Inr watch_cache_init"
    using wf_cache_init by (intro load_image) (simp_all add: wf_cache_def no_load_faults_def)
  with load_sound [OF this] show ?thesis by blast
qed

end
