(* ===== verification/Host_Calls.thy ===== *)
theory Host_Calls
  imports Frame_Decoder Watch_Input Cache_Storage
begin

text \<open>
  The calls of the firmware that leave the repository: Zephyr's clock, sockets and random numbers,
  LVGL's timer handler, the GPIO and display drivers, the C library's clock. The environment is a
  value of an arbitrary type \<open>'e\<close>, and a record of functions answers the calls and moves it on,
  so whatever is proved holds for every behaviour of the outside world. The
  events of LVGL are data, because the renderer's callbacks are part of this program.
\<close>

section \<open>Events of the graphics library\<close>

record lv_point =
  point_x :: i32
  point_y :: i32

datatype lv_event_code =
    LV_EVENT_PRESSED
  | LV_EVENT_PRESSING
  | LV_EVENT_RELEASED
  | LV_EVENT_PRESS_LOST
  | LV_EVENT_SHORT_CLICKED
  | LV_EVENT_REFR_READY

text \<open>
  One callback made by \<open>lv_timer_handler\<close>: its code, and the point of the active input device
  when there is one.
\<close>

record lv_event =
  event_code :: lv_event_code
  event_indev :: "lv_point option"

section \<open>Sockets\<close>

datatype socket_errno = EAGAIN | EWOULDBLOCK | Other_errno

text \<open>\<open>zsock_recv\<close>: the bytes it stored (none when the peer has closed), or a negative result.\<close>

datatype recv_result =
    Received "u8 list"
  | Recv_failed socket_errno

section \<open>The record of calls\<close>

record 'e os =
  k_uptime_get :: "'e \<Rightarrow> i64 \<times> 'e"
  k_sleep :: "'e \<Rightarrow> 'e"
  wall_clock :: "'e \<Rightarrow> i64 \<times> 'e"
  sys_rand32_get :: "'e \<Rightarrow> u32 \<times> 'e"
  zsock_socket :: "'e \<Rightarrow> int \<times> 'e"
  zsock_connect :: "int \<Rightarrow> 'e \<Rightarrow> int \<times> 'e"
  zsock_close :: "int \<Rightarrow> 'e \<Rightarrow> 'e"
  zsock_send :: "int \<Rightarrow> string \<Rightarrow> 'e \<Rightarrow> int \<times> 'e"
  zsock_recv :: "int \<Rightarrow> nat \<Rightarrow> 'e \<Rightarrow> recv_result \<times> 'e"
  lv_timer_handler :: "'e \<Rightarrow> lv_event list \<times> 'e"
  lv_display_get_default :: bool
  button_edges :: "'e \<Rightarrow> (bool \<times> bool) \<times> 'e"
  hardware_button_gpio :: gpio_answers
  activate_button_gpio :: gpio_answers
  device_is_ready :: bool
  display_blanking_off :: "'e \<Rightarrow> int \<times> 'e"
  cache_variable :: "string option"
  load_answers :: "'e \<Rightarrow> load_faults \<times> 'e"
  save_answers :: "'e \<Rightarrow> save_faults \<times> 'e"

text \<open>
  A socket that is a stream, as the POSIX description of \<open>send\<close> promises: a positive result
  counts the bytes of the buffer, from its start, that were added to the stream, and any other
  result adds none. \<open>stream e\<close> is what the peer will see of the socket.
\<close>

definition stream_socket :: "'e os \<Rightarrow> int \<Rightarrow> ('e \<Rightarrow> string) \<Rightarrow> bool" where
  "stream_socket os fd stream \<longleftrightarrow>
     (\<forall>bs e. case zsock_send os fd bs e of (n, e') \<Rightarrow>
        n \<le> int (length bs) \<and> stream e' = stream e @ take (nat n) bs)"

section \<open>An environment for evaluation\<close>

text \<open>
  A machine whose clock is a counter, whose host accepts the connection and takes up to 100
  bytes per \<open>send\<close>, and whose incoming bytes are given. Its random numbers count up, too.
\<close>

record demo_env =
  demo_now :: i64
  demo_sent :: string
  demo_incoming :: "u8 list"
  demo_random :: u32
  demo_events :: "lv_event list"

definition demo_start :: demo_env where
  "demo_start = \<lparr>demo_now = 0, demo_sent = [], demo_incoming = [], demo_random = 0, demo_events = []\<rparr>"

definition working_gpio :: gpio_answers where
  "working_gpio = \<lparr>gpio_is_ready = True, gpio_pin_configure = 0, gpio_add_callback = 0,
                   gpio_pin_interrupt_configure = 0\<rparr>"

definition demo_os :: "demo_env os" where
  "demo_os =
     \<lparr>k_uptime_get = (\<lambda>e. (demo_now e, e)),
      k_sleep = (\<lambda>e. e\<lparr>demo_now := demo_now e + 10\<rparr>),
      wall_clock = (\<lambda>e. (demo_now e, e)),
      sys_rand32_get = (\<lambda>e. (demo_random e, e\<lparr>demo_random := demo_random e + 1\<rparr>)),
      zsock_socket = (\<lambda>e. (3, e)),
      zsock_connect = (\<lambda>_ e. (0, e)),
      zsock_close = (\<lambda>_ e. e),
      zsock_send = (\<lambda>_ bs e.
        (int (min 100 (length bs)), e\<lparr>demo_sent := demo_sent e @ take 100 bs\<rparr>)),
      zsock_recv = (\<lambda>_ n e.
        if demo_incoming e = [] then (Recv_failed EAGAIN, e)
        else (Received (take n (demo_incoming e)), e\<lparr>demo_incoming := drop n (demo_incoming e)\<rparr>)),
      lv_timer_handler = (\<lambda>e. (demo_events e, e\<lparr>demo_events := []\<rparr>)),
      lv_display_get_default = True,
      button_edges = (\<lambda>e. ((False, False), e)),
      hardware_button_gpio = working_gpio,
      activate_button_gpio = working_gpio,
      device_is_ready = True,
      display_blanking_off = (\<lambda>e. (0, e)),
      cache_variable = Some ''cache'',
      load_answers = (\<lambda>e. (no_load_faults, e)),
      save_answers = (\<lambda>e. (no_save_faults, e))\<rparr>"

lemma demo_stream: "stream_socket demo_os fd demo_sent"
  by (simp add: stream_socket_def demo_os_def min_def)

end
