(* ===== verification/C_Format.thy ===== *)
theory C_Format
  imports Json_Api
begin

text \<open>
  The conversions of \<open>printf\<close> that the firmware uses (\<open>%u\<close>, \<open>%llu\<close>, \<open>%d\<close>, \<open>%02u\<close>, \<open>%04x\<close>,
  \<open>%08x\<close>) and the result of \<open>snprintf\<close> into a buffer. The lemmas bound the number of characters
  a conversion yields, and show that a printed decimal is read back as the same number by the
  digit rules of the parsers.
\<close>

section \<open>Digits\<close>

definition digit_char :: "nat \<Rightarrow> char" where
  "digit_char k = (if k < 10 then char_of (k + 48) else char_of (k + 87))"

fun print_dec :: "nat \<Rightarrow> string" where
  "print_dec k = (if k < 10 then [digit_char k] else print_dec (k div 10) @ [digit_char (k mod 10)])"

fun print_hex :: "nat \<Rightarrow> string" where
  "print_hex k = (if k < 16 then [digit_char k] else print_hex (k div 16) @ [digit_char (k mod 16)])"

declare print_dec.simps [simp del] print_hex.simps [simp del]

definition pad_zeros :: "nat \<Rightarrow> string \<Rightarrow> string" where
  "pad_zeros width s = replicate (width - length s) (CHR ''0'') @ s"

definition print_int :: "int \<Rightarrow> string" where
  "print_int i = (if i < 0 then CHR ''-'' # print_dec (nat (- i)) else print_dec (nat i))"

text \<open>What \<open>snprintf\<close> leaves in a buffer of \<open>capacity\<close> characters, as a C string.\<close>

definition snprintf_text :: "nat \<Rightarrow> string \<Rightarrow> string" where
  "snprintf_text capacity s = take (capacity - 1) s"

text \<open>Texts with double quotes: a backquote stands for one.\<close>

definition quoted :: "string \<Rightarrow> string" where
  "quoted s = map (\<lambda>c. if c = CHR 0x60 then CHR 0x22 else c) s"

lemma length_quoted [simp]: "length (quoted s) = length s"
  by (simp add: quoted_def)

section \<open>Lengths\<close>

lemma print_dec_nonempty [simp]: "print_dec k \<noteq> []"
  by (subst print_dec.simps) simp

lemma length_print_dec: "k < 10 ^ n \<Longrightarrow> 0 < n \<Longrightarrow> length (print_dec k) \<le> n"
proof (induction n arbitrary: k)
  case 0
  then show ?case by simp
next
  case (Suc n)
  show ?case
  proof (cases "k < 10")
    case True
    then show ?thesis by (simp add: print_dec.simps)
  next
    case False
    with Suc.prems have "0 < n" by (cases n) auto
    moreover from Suc.prems have "k div 10 < 10 ^ n" by (simp add: less_mult_imp_div_less mult.commute)
    ultimately have "length (print_dec (k div 10)) \<le> n" by (rule Suc.IH [rotated])
    with False show ?thesis by (simp add: print_dec.simps [of k])
  qed
qed

lemma length_print_hex: "k < 16 ^ n \<Longrightarrow> 0 < n \<Longrightarrow> length (print_hex k) \<le> n"
proof (induction n arbitrary: k)
  case 0
  then show ?case by simp
next
  case (Suc n)
  show ?case
  proof (cases "k < 16")
    case True
    then show ?thesis by (simp add: print_hex.simps)
  next
    case False
    with Suc.prems have "0 < n" by (cases n) auto
    moreover from Suc.prems have "k div 16 < 16 ^ n" by (simp add: less_mult_imp_div_less mult.commute)
    ultimately have "length (print_hex (k div 16)) \<le> n" by (rule Suc.IH [rotated])
    with False show ?thesis by (simp add: print_hex.simps [of k])
  qed
qed

lemma length_pad_zeros: "length s \<le> w \<Longrightarrow> length (pad_zeros w s) = w"
  by (simp add: pad_zeros_def)

lemma length_dec_u8: "length (print_dec (unat (b :: u8))) \<le> 3"
  by (rule length_print_dec, rule less_trans [OF unat_u8_less]) simp_all

lemma length_dec_u32: "length (print_dec (unat (w :: u32))) \<le> 10"
  by (rule length_print_dec, rule less_trans [OF unat_u32_less]) simp_all

lemma length_dec_u64: "length (print_dec (unat (w :: u64))) \<le> 20"
  by (rule length_print_dec) (use unsigned_less [of w, where 'a = nat] in simp_all)

lemma length_int_i16: "length (print_int (sint (t :: i16))) \<le> 6"
proof -
  have range: "- 32768 \<le> sint t" "sint t < 32768"
    using sint_ge [of t] sint_lt [of t] by simp_all
  have "length (print_dec (nat k)) \<le> 5" if "0 \<le> k" "k \<le> 32768" for k :: int
    by (rule length_print_dec) (use that in simp_all)
  from this [of "sint t"] this [of "- sint t"] range show ?thesis
    by (cases "sint t < 0") (simp_all add: print_int_def)
qed

section \<open>Reading back\<close>

lemma decimal_from_append: "decimal_from acc (s @ t) = decimal_from (decimal_from acc s) t"
  by (induction s arbitrary: acc) simp_all

lemma digit_char_digit:
  "k < 10 \<Longrightarrow> digit_value (digit_char k) = k" "k < 10 \<Longrightarrow> \<not> not_digit (digit_char k)"
  by (simp_all add: digit_char_def digit_value_number)

lemma decimal_print: "decimal (print_dec k) = k"
  unfolding decimal_def
proof (induction k rule: print_dec.induct)
  case (1 k)
  show ?case
  proof (cases "k < 10")
    case True
    then show ?thesis by (simp add: print_dec.simps digit_char_digit)
  next
    case False
    with 1 show ?thesis
      by (simp add: print_dec.simps [of k] decimal_from_append digit_char_digit)
  qed
qed

lemma all_digits_print: "all_digits (print_dec k)"
proof -
  have "list_all (\<lambda>c. \<not> not_digit c) (print_dec k)"
  proof (induction k rule: print_dec.induct)
    case (1 k)
    then show ?case
      by (cases "k < 10") (simp_all add: print_dec.simps [of k] digit_char_digit)
  qed
  then show ?thesis by (simp add: all_digits_def)
qed

text \<open>Printed hexadecimal digits.\<close>

definition hex_char :: "char \<Rightarrow> bool" where
  "hex_char c \<longleftrightarrow> c \<in> set ''0123456789abcdef''"

lemma hex_digit_char: "k < 16 \<Longrightarrow> hex_char (digit_char k)"
proof -
  have "\<forall>m \<in> set [0..<16]. hex_char (digit_char m)" by code_simp
  then show "k < 16 \<Longrightarrow> hex_char (digit_char k)" by simp
qed

lemma hex_print: "list_all hex_char (print_hex k)"
proof (induction k rule: print_hex.induct)
  case (1 k)
  then show ?case
    by (cases "k < 16") (simp_all add: print_hex.simps [of k] hex_digit_char)
qed

lemma hex_padded: "list_all hex_char (pad_zeros w (print_hex k))"
proof -
  have "hex_char (CHR ''0'')" by (simp add: hex_char_def)
  then have "list_all hex_char (replicate n (CHR ''0''))" for n
    by (induction n) simp_all
  then show ?thesis by (simp add: pad_zeros_def hex_print)
qed

section \<open>Fixed width\<close>

text \<open>A padded hexadecimal number that fits its width has one digit per position.\<close>

fun fixed_hex :: "nat \<Rightarrow> nat \<Rightarrow> string" where
  "fixed_hex 0 k = []"
| "fixed_hex (Suc w) k = fixed_hex w (k div 16) @ [digit_char (k mod 16)]"

lemma length_fixed_hex [simp]: "length (fixed_hex w k) = w"
  by (induction w arbitrary: k) simp_all

lemma fixed_hex_zero: "fixed_hex w 0 = replicate w (CHR ''0'')"
proof (induction w)
  case (Suc w)
  have "digit_char 0 = CHR ''0''" by code_simp
  with Suc show ?case by (simp add: replicate_append_same)
qed simp

lemma padded_hex: "k < 16 ^ w \<Longrightarrow> 0 < w \<Longrightarrow> pad_zeros w (print_hex k) = fixed_hex w k"
proof (induction w arbitrary: k)
  case (Suc w)
  show ?case
  proof (cases "k < 16")
    case True
    then show ?thesis by (simp add: pad_zeros_def print_hex.simps fixed_hex_zero)
  next
    case False
    with Suc.prems have "0 < w" by (cases w) auto
    moreover from Suc.prems have "k div 16 < 16 ^ w" by (simp add: less_mult_imp_div_less mult.commute)
    ultimately have "pad_zeros w (print_hex (k div 16)) = fixed_hex w (k div 16)"
      by (rule Suc.IH [rotated])
    with False show ?thesis by (simp add: print_hex.simps [of k] pad_zeros_def)
  qed
qed simp

lemma hex_fixed: "list_all hex_char (fixed_hex w k)"
  by (induction w arbitrary: k) (simp_all add: hex_digit_char)

lemma fixed_hex_first: "fixed_hex (Suc w) k ! 0 = digit_char (k div 16 ^ w mod 16)"
proof (induction w arbitrary: k)
  case (Suc w)
  have "fixed_hex (Suc (Suc w)) k ! 0 = fixed_hex (Suc w) (k div 16) ! 0"
    by (subst fixed_hex.simps(2)) (simp add: nth_append)
  also have "\<dots> = digit_char (k div 16 div 16 ^ w mod 16)" by (rule Suc.IH)
  finally show ?case by (simp add: div_mult2_eq)
qed simp

lemma digit_char_inject: "j < 16 \<Longrightarrow> k < 16 \<Longrightarrow> digit_char j = digit_char k \<longleftrightarrow> j = k"
proof -
  have "\<forall>j \<in> set [0..<16]. \<forall>k \<in> set [0..<16]. digit_char j = digit_char k \<longleftrightarrow> j = k" by code_simp
  then show "j < 16 \<Longrightarrow> k < 16 \<Longrightarrow> digit_char j = digit_char k \<longleftrightarrow> j = k" by simp
qed

lemma fixed_hex_inject:
  "j < 16 ^ w \<Longrightarrow> k < 16 ^ w \<Longrightarrow> fixed_hex w j = fixed_hex w k \<longleftrightarrow> j = k"
proof (induction w arbitrary: j k)
  case (Suc w)
  then have "j div 16 < 16 ^ w" "k div 16 < 16 ^ w"
    by (simp_all add: less_mult_imp_div_less mult.commute)
  with Suc.IH have "fixed_hex (Suc w) j = fixed_hex (Suc w) k \<longleftrightarrow>
      j div 16 = k div 16 \<and> j mod 16 = k mod 16"
    by (simp add: digit_char_inject)
  also have "\<dots> \<longleftrightarrow> j = k" by (metis div_mult_mod_eq)
  finally show ?case .
qed simp

lemma fixed_hex_nth: "i < w \<Longrightarrow> hex_char (fixed_hex w k ! i)"
  using hex_fixed [of w k] by (simp add: list_all_length)

end
