(* ===== verification/Transport.thy ===== *)
theory Transport
  imports Host_Calls C_Format Sync_Parse "HOL-Library.Sublist"
begin

text \<open>
  The connection to the host (\<open>watch/src/transport/transport.h\<close> and \<open>transport.c\<close>): connecting with a
  back-off, the hello and sync request, receiving into the frame decoder, the answer to
  commands the watch does not support, and disconnection. The runtime's two handlers are
  arguments; they act on a world that consists of the transport's static variables, the
  environment and the runtime's own state, because they call back into the transport.
\<close>

section \<open>State\<close>

definition RECONNECT_INTERVAL_MS :: i64 where
  "RECONNECT_INTERVAL_MS = 1000"

text \<open>\<open>session_id\<close> is the C string in its array of 37 characters.\<close>

record transport =
  socket_fd :: int
  next_connect_at :: i64
  next_message_id :: u32
  decoder :: watch_frame_decoder
  session_id :: string

definition transport_start :: transport where
  "transport_start =
     \<lparr>socket_fd = - 1, next_connect_at = 0, next_message_id = 1, decoder = empty_decoder,
      session_id = []\<rparr>"

record ('e, 'a) world =
  trans :: transport
  env :: 'e
  app :: 'a

datatype transport_event = TRANSPORT_EVENT_CONNECTED | TRANSPORT_EVENT_DISCONNECTED

text \<open>The handlers that \<open>transport_init\<close> stores; None is NULL.\<close>

record ('e, 'a) handlers =
  runtime_message_handler :: "('e, 'a) world message_handler option"
  runtime_event_handler :: "(transport_event \<Rightarrow> ('e, 'a) world \<Rightarrow> ('e, 'a) world) option"

definition raise_event ::
    "('e, 'a) handlers \<Rightarrow> transport_event \<Rightarrow> ('e, 'a) world \<Rightarrow> ('e, 'a) world" where
  "raise_event hs event w =
     (case runtime_event_handler hs of None \<Rightarrow> w | Some handler \<Rightarrow> handler event w)"

definition uptime :: "'e os \<Rightarrow> ('e, 'a) world \<Rightarrow> i64 \<times> ('e, 'a) world" where
  "uptime os w = (case k_uptime_get os (env w) of (now, e) \<Rightarrow> (now, w\<lparr>env := e\<rparr>))"

definition set_next_connect :: "i64 \<Rightarrow> ('e, 'a) world \<Rightarrow> ('e, 'a) world" where
  "set_next_connect at w = w\<lparr>trans := (trans w)\<lparr>next_connect_at := at\<rparr>\<rparr>"

definition set_socket :: "int \<Rightarrow> ('e, 'a) world \<Rightarrow> ('e, 'a) world" where
  "set_socket fd w = w\<lparr>trans := (trans w)\<lparr>socket_fd := fd\<rparr>\<rparr>"

definition set_decoder :: "watch_frame_decoder \<Rightarrow> ('e, 'a) world \<Rightarrow> ('e, 'a) world" where
  "set_decoder d w = w\<lparr>trans := (trans w)\<lparr>decoder := d\<rparr>\<rparr>"

text \<open>\<open>next_connect_at = k_uptime_get() + RECONNECT_INTERVAL_MS\<close>\<close>

definition back_off :: "'e os \<Rightarrow> ('e, 'a) world \<Rightarrow> ('e, 'a) world" where
  "back_off os w =
     (case uptime os w of (now, w) \<Rightarrow> set_next_connect (now + RECONNECT_INTERVAL_MS) w)"

definition disconnect :: "'e os \<Rightarrow> ('e, 'a) handlers \<Rightarrow> ('e, 'a) world \<Rightarrow> ('e, 'a) world" where
  "disconnect os hs w =
     (let w = (if socket_fd (trans w) \<ge> 0 then
                 let w = w\<lparr>env := zsock_close os (socket_fd (trans w)) (env w)\<rparr>;
                     w = set_socket (- 1) w
                 in raise_event hs TRANSPORT_EVENT_DISCONNECTED w
               else w);
          w = set_decoder ((decoder (trans w))\<lparr>bytes := []\<rparr>) w
      in back_off os w)"

section \<open>Sending\<close>

text \<open>The loop over the bytes that are still to be sent.\<close>

function send_bytes :: "'e os \<Rightarrow> int \<Rightarrow> string \<Rightarrow> 'e \<Rightarrow> (errno + unit) \<times> 'e" where
  "send_bytes os fd bs e =
     (if bs = [] then (Inr (), e)
      else case zsock_send os fd bs e of (result, e) \<Rightarrow>
        if result \<le> 0 then (Inl EIO, e)
        else send_bytes os fd (drop (nat result) bs) e)"
  by pat_completeness auto

termination
  by (relation "measure (\<lambda>(os, fd, bs, e). length bs)") auto

declare send_bytes.simps [simp del]

text \<open>
  A frame is printed into a buffer of \<open>capacity\<close> characters and sent when it has not been
  truncated.
\<close>

definition send_frame ::
    "'e os \<Rightarrow> nat \<Rightarrow> string \<Rightarrow> ('e, 'a) world \<Rightarrow> (errno + unit) \<times> ('e, 'a) world" where
  "send_frame os capacity text w =
     (if length text > 0 \<and> length text < capacity then
        (case send_bytes os (socket_fd (trans w)) text (env w) of (r, e) \<Rightarrow> (r, w\<lparr>env := e\<rparr>))
      else (Inl EIO, w))"

text \<open>\<open>next_message_id++\<close>\<close>

definition take_message_id :: "('e, 'a) world \<Rightarrow> u32 \<times> ('e, 'a) world" where
  "take_message_id w =
     (next_message_id (trans w),
      w\<lparr>trans := (trans w)\<lparr>next_message_id := next_message_id (trans w) + 1\<rparr>\<rparr>)"

definition hello_frame :: "u32 \<Rightarrow> string \<Rightarrow> string" where
  "hello_frame n session =
     quoted ''{`version`:1,`type`:`hello`,`id`:'' @ print_dec (unat n) @
     quoted '',`payload`:{`device_id`:`cmf-watch-pro-2-sim`,`session_id`:`'' @ session @
     quoted ''`,`runtime_version`:`0.1.0`,`protocol_versions`:[1],`simulator`:true}}'' @ [CHR 0x0A]"

definition sync_request_frame :: "u32 \<Rightarrow> u64 \<Rightarrow> string" where
  "sync_request_frame n revision =
     quoted ''{`version`:1,`type`:`sync_request`,`id`:'' @ print_dec (unat n) @
     quoted '',`payload`:{`last_revision`:'' @ print_dec (unat revision) @
     ''}}'' @ [CHR 0x0A]"

definition unsupported_frame :: "u32 \<Rightarrow> u32 \<Rightarrow> string" where
  "unsupported_frame n reply_to =
     quoted ''{`version`:1,`type`:`command_result`,`id`:'' @ print_dec (unat n) @
     quoted '',`reply_to`:'' @ print_dec (unat reply_to) @
     quoted '',`payload`:{`status`:`rejected`,`code`:`unsupported`}}'' @ [CHR 0x0A]"

definition music_action_frame :: "u32 \<Rightarrow> bool \<Rightarrow> string" where
  "music_action_frame n playing =
     quoted ''{`version`:1,`type`:`action`,`id`:'' @ print_dec (unat n) @
     quoted '',`payload`:{`app_id`:`music`,`action_id`:`set_playing`,`arguments`:{`playing`:'' @
     (if playing then ''true'' else ''false'') @ ''}}}'' @ [CHR 0x0A]"

definition transport_request_sync ::
    "'e os \<Rightarrow> u64 \<Rightarrow> ('e, 'a) world \<Rightarrow> (errno + unit) \<times> ('e, 'a) world" where
  "transport_request_sync os last_revision w =
     (if socket_fd (trans w) < 0 then (Inl ENOTCONN, w)
      else case take_message_id w of (n, w) \<Rightarrow>
        send_frame os 192 (sync_request_frame n last_revision) w)"

definition send_bootstrap :: "'e os \<Rightarrow> ('e, 'a) world \<Rightarrow> (errno + unit) \<times> ('e, 'a) world" where
  "send_bootstrap os w =
     (case take_message_id w of (n, w) \<Rightarrow>
        (case send_frame os 512 (hello_frame n (session_id (trans w))) w of
           (Inl _, w) \<Rightarrow> (Inl EIO, w)
         | (Inr _, w) \<Rightarrow> transport_request_sync os 0 w))"

definition is_command :: "watch_message_type \<Rightarrow> bool" where
  "is_command type \<longleftrightarrow>
     type = WATCH_MESSAGE_REFRESH \<or> type = WATCH_MESSAGE_APP_OPEN \<or>
     type = WATCH_MESSAGE_SHOW_TOAST \<or> type = WATCH_MESSAGE_SHOW_DIALOG \<or>
     type = WATCH_MESSAGE_CACHE_INVALIDATE"

definition send_unsupported_result ::
    "'e os \<Rightarrow> u32 \<Rightarrow> ('e, 'a) world \<Rightarrow> (errno + unit) \<times> ('e, 'a) world" where
  "send_unsupported_result os reply_to w =
     (case take_message_id w of (n, w) \<Rightarrow> send_frame os 256 (unsupported_frame n reply_to) w)"

text \<open>The identifier of the action is stored through the pointer only when it was sent.\<close>

definition transport_send_music_action ::
    "'e os \<Rightarrow> bool \<Rightarrow> ('e, 'a) world \<Rightarrow> (errno + u32) \<times> ('e, 'a) world" where
  "transport_send_music_action os playing w =
     (if socket_fd (trans w) < 0 then (Inl ENOTCONN, w)
      else case take_message_id w of (n, w) \<Rightarrow>
        (case send_frame os 256 (music_action_frame n playing) w of
           (Inl e, w) \<Rightarrow> (Inl e, w)
         | (Inr _, w) \<Rightarrow> (Inr n, w)))"

section \<open>Connecting and receiving\<close>

definition connect_if_due :: "'e os \<Rightarrow> ('e, 'a) handlers \<Rightarrow> ('e, 'a) world \<Rightarrow> ('e, 'a) world" where
  "connect_if_due os hs w =
     (if socket_fd (trans w) \<ge> 0 then w
      else case uptime os w of (now, w) \<Rightarrow>
        if sint now < sint (next_connect_at (trans w)) then w
        else case zsock_socket os (env w) of (candidate, e) \<Rightarrow>
          (let w = w\<lparr>env := e\<rparr> in
           if candidate < 0 then back_off os w
           else case zsock_connect os candidate (env w) of (result, e) \<Rightarrow>
             (let w = w\<lparr>env := e\<rparr> in
              if result < 0 then back_off os (w\<lparr>env := zsock_close os candidate (env w)\<rparr>)
              else
                let w = set_socket candidate w;
                    w = raise_event hs TRANSPORT_EVENT_CONNECTED w
                in case send_bootstrap os w of
                     (Inl _, w) \<Rightarrow> disconnect os hs w
                   | (Inr _, w) \<Rightarrow> w)))"

definition handle_message ::
    "'e os \<Rightarrow> ('e, 'a) handlers \<Rightarrow> ('e, 'a) world message_handler" where
  "handle_message os hs message w =
     (if is_command (msg_type message) then send_unsupported_result os (msg_id message) w
      else case runtime_message_handler hs of
        None \<Rightarrow> (Inr (), w)
      | Some handler \<Rightarrow> handler message w)"

text \<open>The four random words with the version and the variant of RFC 4122, printed.\<close>

definition new_session_id :: "u32 \<Rightarrow> u32 \<Rightarrow> u32 \<Rightarrow> u32 \<Rightarrow> string" where
  "new_session_id r0 r1 r2 r3 =
     (let r1 = (r1 AND 0xffff0fff) OR 0x00004000;
          r2 = (r2 AND 0x3fffffff) OR 0x80000000
      in snprintf_text 37
           (pad_zeros 8 (print_hex (unat r0)) @ ''-'' @
            pad_zeros 4 (print_hex (unat (drop_bit 16 r1))) @ ''-'' @
            pad_zeros 4 (print_hex (unat (r1 AND 0xffff))) @ ''-'' @
            pad_zeros 4 (print_hex (unat (drop_bit 16 r2))) @ ''-'' @
            pad_zeros 4 (print_hex (unat (r2 AND 0xffff))) @
            pad_zeros 8 (print_hex (unat r3))))"

definition transport_init :: "'e os \<Rightarrow> ('e, 'a) handlers \<Rightarrow> ('e, 'a) world \<Rightarrow> ('e, 'a) world" where
  "transport_init os hs w =
     (case sys_rand32_get os (env w) of (r0, e) \<Rightarrow>
      case sys_rand32_get os e of (r1, e) \<Rightarrow>
      case sys_rand32_get os e of (r2, e) \<Rightarrow>
      case sys_rand32_get os e of (r3, e) \<Rightarrow>
        connect_if_due os hs
          (w\<lparr>env := e,
             trans := (trans w)\<lparr>session_id := new_session_id r0 r1 r2 r3, next_connect_at := 0\<rparr>\<rparr>))"

text \<open>
  During the push the decoder is held apart from the transport: the handlers never touch it,
  and only \<open>disconnect\<close>, which no handler calls, resets it.
\<close>

definition transport_poll ::
    "json_lib \<Rightarrow> 'e os \<Rightarrow> ('e, 'a) handlers \<Rightarrow> ('e, 'a) world \<Rightarrow> ('e, 'a) world" where
  "transport_poll J os hs w =
     (let w = connect_if_due os hs w in
      if socket_fd (trans w) < 0 then w
      else case zsock_recv os (socket_fd (trans w)) 1024 (env w) of (answer, e) \<Rightarrow>
        (let w = w\<lparr>env := e\<rparr> in
         case answer of
           Received received \<Rightarrow>
             if length received > 0 then
               (case watch_frame_decoder_push J (handle_message os hs) received (decoder (trans w)) w of
                  (result, d, w) \<Rightarrow>
                    (let w = set_decoder d w in
                     if result \<noteq> Push_OK then disconnect os hs w else w))
             else disconnect os hs w
         | Recv_failed code \<Rightarrow>
             if code \<noteq> EAGAIN \<and> code \<noteq> EWOULDBLOCK then disconnect os hs w else w))"

definition transport_connected :: "('e, 'a) world \<Rightarrow> bool" where
  "transport_connected w \<longleftrightarrow> socket_fd (trans w) \<ge> 0"

section \<open>The stream of sent bytes\<close>

text \<open>
  All sockets are streams and no other call sends: \<open>stream e\<close> is everything sent so far.
\<close>

definition stream_os :: "'e os \<Rightarrow> ('e \<Rightarrow> string) \<Rightarrow> bool" where
  "stream_os os stream \<longleftrightarrow>
     (\<forall>fd. stream_socket os fd stream) \<and>
     (\<forall>e. stream (snd (k_uptime_get os e)) = stream e) \<and>
     (\<forall>e. stream (snd (zsock_socket os e)) = stream e) \<and>
     (\<forall>fd e. stream (snd (zsock_connect os fd e)) = stream e) \<and>
     (\<forall>fd e. stream (zsock_close os fd e) = stream e)"

lemma demo_stream_os: "stream_os demo_os demo_sent"
  by (simp add: stream_os_def demo_stream) (simp add: demo_os_def)

lemma send_bytes_spec:
  assumes "stream_socket os fd stream"
  shows "send_bytes os fd bs e = (r, e') \<Longrightarrow>
    \<exists>k \<le> length bs. stream e' = stream e @ take k bs \<and> (r = Inr () \<longleftrightarrow> k = length bs) \<and>
      (r = Inr () \<or> r = Inl EIO)"
proof (induction "length bs" arbitrary: bs e rule: less_induct)
  case less
  show ?case
  proof (cases "bs = []")
    case True
    with less.prems show ?thesis by (simp add: send_bytes.simps)
  next
    case False
    obtain n e1 where send: "zsock_send os fd bs e = (n, e1)" by fastforce
    have "case zsock_send os fd bs e of (n, e') \<Rightarrow>
        n \<le> int (length bs) \<and> stream e' = stream e @ take (nat n) bs"
      by (rule assms [unfolded stream_socket_def, THEN spec, THEN spec])
    with send have n: "n \<le> int (length bs)" and e1: "stream e1 = stream e @ take (nat n) bs"
      by simp_all
    show ?thesis
    proof (cases "n \<le> 0")
      case True
      with less.prems False send e1 show ?thesis
        by (auto simp: send_bytes.simps [of os fd bs] intro!: exI [of _ 0])
    next
      case positive: False
      let ?rest = "drop (nat n) bs"
      have "send_bytes os fd ?rest e1 = (r, e')"
        using less.prems False positive by (simp add: send_bytes.simps [of os fd bs] send)
      moreover have "length ?rest < length bs" using False positive by simp
      ultimately obtain k where k: "k \<le> length ?rest" "stream e' = stream e1 @ take k ?rest"
          "r = Inr () \<longleftrightarrow> k = length ?rest" "r = Inr () \<or> r = Inl EIO"
        using less.hyps by blast
      have "stream e' = stream e @ take (nat n + k) bs"
        by (simp add: k(2) e1 take_add)
      moreover have "nat n + k \<le> length bs" "r = Inr () \<longleftrightarrow> nat n + k = length bs"
        using k n positive by auto
      ultimately show ?thesis using k(4) by blast
    qed
  qed
qed

text \<open>
  C33. A frame goes out whole and in order, whatever chunks the socket accepts: on a stream
  socket the bytes added to the stream are a prefix of the frame, and sending reports success
  exactly when they are all of it.
\<close>

theorem send_bytes_in_order:
  assumes "stream_socket os fd stream" and "send_bytes os fd frame e = (r, e')"
  shows "\<exists>sent. prefix sent frame \<and> stream e' = stream e @ sent \<and>
    (r = Inr () \<longleftrightarrow> sent = frame) \<and> (r = Inr () \<or> r = Inl EIO)"
proof -
  obtain k where k: "k \<le> length frame" "stream e' = stream e @ take k frame"
      "r = Inr () \<longleftrightarrow> k = length frame" "r = Inr () \<or> r = Inl EIO"
    using send_bytes_spec [OF assms] by blast
  have "prefix (take k frame) frame" by (rule take_is_prefix)
  moreover have "take k frame = frame \<longleftrightarrow> k = length frame"
    using k(1) by (metis length_take min.absorb2 order_refl take_all)
  ultimately show ?thesis using k by blast
qed

theorem send_bytes_in_order_witness:
  "demo_sent (snd (send_bytes demo_os 3 (replicate 250 (CHR ''x'')) demo_start)) = replicate 250 (CHR ''x'')"
proof -
  let ?frame = "replicate 250 (CHR ''x'')"
  obtain r e' where send: "send_bytes demo_os 3 ?frame demo_start = (r, e')" by fastforce
  moreover have "r = Inr ()"
    using send by (simp add: send_bytes.simps demo_os_def)
  ultimately show ?thesis
    using send_bytes_in_order [OF demo_stream send] by (auto simp: demo_start_def)
qed

section \<open>The frames\<close>

lemma digits_no_newline: "CHR 0x0A \<notin> set (print_dec k)"
proof -
  have "not_digit (CHR 0x0A)" by code_simp
  then show ?thesis using all_digits_print [of k] by (auto simp: all_digits_def list_all_iff)
qed

text \<open>One line that the host's frame reader takes as one frame.\<close>

definition one_line :: "string \<Rightarrow> bool" where
  "one_line frame \<longleftrightarrow>
     (\<exists>t. frame = t @ [CHR 0x0A] \<and> CHR 0x0A \<notin> set t \<and> t \<noteq> [] \<and> length t \<le> WATCH_PROTOCOL_MAX_FRAME_SIZE)"

lemma one_lineI:
  "CHR 0x0A \<notin> set t \<Longrightarrow> t \<noteq> [] \<Longrightarrow> length t \<le> WATCH_PROTOCOL_MAX_FRAME_SIZE \<Longrightarrow>
   one_line (t @ [CHR 0x0A])"
  by (auto simp: one_line_def)

lemma hello_frame_line:
  assumes "length session \<le> 36" and "CHR 0x0A \<notin> set session"
  shows "one_line (hello_frame n session) \<and> length (hello_frame n session) < 512"
  unfolding hello_frame_def append_assoc [symmetric]
  using assms digits_no_newline [of "unat n"] length_dec_u32 [of n]
  by (intro conjI one_lineI) (simp_all add: quoted_def WATCH_PROTOCOL_MAX_FRAME_SIZE_def)

lemma sync_request_frame_line:
  "one_line (sync_request_frame n r) \<and> length (sync_request_frame n r) < 192"
  unfolding sync_request_frame_def append_assoc [symmetric]
  using digits_no_newline [of "unat n"] digits_no_newline [of "unat r"]
    length_dec_u32 [of n] length_dec_u64 [of r]
  by (intro conjI one_lineI) (simp_all add: quoted_def WATCH_PROTOCOL_MAX_FRAME_SIZE_def)

lemma unsupported_frame_line:
  "one_line (unsupported_frame n m) \<and> length (unsupported_frame n m) < 256"
  unfolding unsupported_frame_def append_assoc [symmetric]
  using digits_no_newline [of "unat n"] digits_no_newline [of "unat m"]
    length_dec_u32 [of n] length_dec_u32 [of m]
  by (intro conjI one_lineI) (simp_all add: quoted_def WATCH_PROTOCOL_MAX_FRAME_SIZE_def)

lemma music_action_frame_line:
  "one_line (music_action_frame n p) \<and> length (music_action_frame n p) < 256"
  unfolding music_action_frame_def append_assoc [symmetric]
  using digits_no_newline [of "unat n"] length_dec_u32 [of n]
  by (intro conjI one_lineI) (simp_all add: quoted_def WATCH_PROTOCOL_MAX_FRAME_SIZE_def)

text \<open>
  C39. No outgoing frame is ever truncated: for every identifier, revision and session
  identifier of at most 36 characters the four frames fit their buffers of 512, 192, 256 and
  256 characters, and each is a single line within the protocol's frame limit.
\<close>

theorem frames_never_truncated:
  assumes "length session \<le> 36" and "CHR 0x0A \<notin> set session"
  shows "(one_line (hello_frame n session) \<and> length (hello_frame n session) < 512) \<and>
    (one_line (sync_request_frame n r) \<and> length (sync_request_frame n r) < 192) \<and>
    (one_line (unsupported_frame n m) \<and> length (unsupported_frame n m) < 256) \<and>
    (one_line (music_action_frame n p) \<and> length (music_action_frame n p) < 256)"
  using hello_frame_line [OF assms] sync_request_frame_line unsupported_frame_line
    music_action_frame_line by blast

theorem frames_never_truncated_witness:
  "length (hello_frame (- 1) (replicate 36 (CHR ''f''))) < 512 \<and>
   length (sync_request_frame (- 1) (- 1)) < 192"
proof -
  have "length (replicate 36 (CHR ''f'')) \<le> 36" "CHR 0x0A \<notin> set (replicate 36 (CHR ''f''))"
    by simp_all
  from frames_never_truncated [OF this, of "- 1" "- 1" 0 True] show ?thesis by blast
qed

subsection \<open>Reading the numbers back\<close>

text \<open>A printed number ends where its digits end.\<close>

lemma print_dec_inject: "print_dec j = print_dec k \<longleftrightarrow> j = k"
  by (metis decimal_print)

lemma print_dec_prefix:
  assumes "not_digit c" "not_digit d"
  shows "print_dec j @ c # s = print_dec k @ d # t \<longleftrightarrow> j = k \<and> c = d \<and> s = t"
proof
  have split: "takeWhile (\<lambda>x. \<not> not_digit x) (print_dec i @ x # u) = print_dec i"
    if "not_digit x" for i x u
    using all_digits_print [of i] that
    by (simp add: all_digits_def list_all_iff takeWhile_append2)
  assume eq: "print_dec j @ c # s = print_dec k @ d # t"
  then have "print_dec j = print_dec k" using split [OF assms(1)] split [OF assms(2)] by metis
  with eq show "j = k \<and> c = d \<and> s = t" by (simp add: print_dec_inject)
qed simp

lemma not_digit_comma: "not_digit (CHR '','')" "not_digit (CHR ''}'')"
  by code_simp+

lemma sync_request_frame_inject:
  "sync_request_frame n r = sync_request_frame n' r' \<longleftrightarrow> n = n' \<and> r = r'"
  by (simp add: sync_request_frame_def quoted_def print_dec_prefix print_dec_inject not_digit_comma
      word_unat_eq_iff)

lemma unsupported_frame_inject:
  "unsupported_frame n m = unsupported_frame n' m' \<longleftrightarrow> n = n' \<and> m = m'"
  by (simp add: unsupported_frame_def quoted_def print_dec_prefix print_dec_inject not_digit_comma
      word_unat_eq_iff)

lemma music_action_frame_inject:
  "music_action_frame n p = music_action_frame n' p' \<longleftrightarrow> n = n' \<and> p = p'"
  by (auto simp: music_action_frame_def quoted_def print_dec_prefix print_dec_inject not_digit_comma
      word_unat_eq_iff)

text \<open>
  C40. Numbers survive the wire: every identifier and revision the watch prints into a frame is
  read back as the same word by the firmware's own number parsers, the largest values
  included, and the frames determine the numbers and flags they were printed from.
\<close>

theorem printed_numbers_read_back:
  "parse_u32 \<lparr>tok_type = JSON_TOK_NUMBER, tok_text = print_dec (unat n)\<rparr> = Inr n \<and>
   parse_u64 \<lparr>tok_type = JSON_TOK_NUMBER, tok_text = print_dec (unat r)\<rparr> = Inr r \<and>
   (sync_request_frame n r = sync_request_frame n' r' \<longleftrightarrow> n = n' \<and> r = r') \<and>
   (unsupported_frame n m = unsupported_frame n' m' \<longleftrightarrow> n = n' \<and> m = m') \<and>
   (music_action_frame n p = music_action_frame n' p' \<longleftrightarrow> n = n' \<and> p = p')"
  by (simp add: parse_u32_iff parse_u64_iff all_digits_print decimal_print
      sync_request_frame_inject unsupported_frame_inject music_action_frame_inject)

section \<open>The session identifier\<close>

text \<open>The text form of a version 4 UUID of RFC 4122.\<close>

definition uuid_v4 :: "string \<Rightarrow> bool" where
  "uuid_v4 s \<longleftrightarrow>
     length s = 36 \<and>
     (let g = chunks [8, 1, 4, 1, 4, 1, 4, 1, 12] s in
      g ! 1 = ''-'' \<and> g ! 3 = ''-'' \<and> g ! 5 = ''-'' \<and> g ! 7 = ''-'' \<and>
      list_all hex_char (g ! 0 @ g ! 2 @ g ! 4 @ g ! 6 @ g ! 8) \<and>
      g ! 4 ! 0 = CHR ''4'' \<and> g ! 6 ! 0 \<in> set ''89ab'')"

definition version_word :: "u32 \<Rightarrow> u32" where
  "version_word r = (r AND 0xffff0fff) OR 0x00004000"

definition variant_word :: "u32 \<Rightarrow> u32" where
  "variant_word r = (r AND 0x3fffffff) OR 0x80000000"

definition low_half :: "u32 \<Rightarrow> nat" where
  "low_half w = unat w mod 2 ^ 16"

definition high_half :: "u32 \<Rightarrow> nat" where
  "high_half w = unat w div 2 ^ 16"

lemma halves_less: "low_half w < 65536" "high_half w < 65536"
  using unat_u32_less [of w] by (auto simp: low_half_def high_half_def less_mult_imp_div_less)

lemma halves_inject: "low_half w = low_half v \<and> high_half w = high_half v \<longleftrightarrow> w = v"
  unfolding low_half_def high_half_def by (metis div_mult_mod_eq word_unat_eq_iff)

lemma unat_halves: "unat (w AND 0xffff) = low_half w" "unat (drop_bit 16 w) = high_half w"
proof -
  have "w AND 0xffff = take_bit 16 w" by (simp add: take_bit_eq_mask mask_eq_exp_minus_1)
  then show "unat (w AND 0xffff) = low_half w"
    by (simp add: low_half_def unsigned_take_bit_eq) (simp add: take_bit_eq_mod)
  show "unat (drop_bit 16 w) = high_half w"
    by (simp add: high_half_def unsigned_drop_bit_eq drop_bit_eq_div unat_div)
qed

lemma new_session_id_groups:
  "new_session_id r0 r1 r2 r3 =
     fixed_hex 8 (unat r0) @ CHR ''-'' # fixed_hex 4 (high_half (version_word r1)) @ CHR ''-'' #
     fixed_hex 4 (low_half (version_word r1)) @ CHR ''-'' #
     fixed_hex 4 (high_half (variant_word r2)) @ CHR ''-'' #
     fixed_hex 4 (low_half (variant_word r2)) @ fixed_hex 8 (unat r3)"
proof -
  have "unat (w :: u32) < 16 ^ 8" for w by (rule less_le_trans [OF unat_u32_less]) simp
  then show ?thesis
    by (simp add: new_session_id_def Let_def snprintf_text_def padded_hex halves_less unat_halves
        flip: version_word_def variant_word_def)
qed

lemma third_digit: "low_half w div 16 ^ 3 mod 16 = unat (take_bit 4 (drop_bit 12 w))"
proof -
  have "unat w mod 65536 div 4096 mod 16 = unat w div 4096 mod 16"
    using mod_mult2_eq [of "unat w" 4096 16] by simp
  then show ?thesis
    by (simp only: low_half_def unsigned_take_bit_eq unsigned_drop_bit_eq take_bit_eq_mod
        drop_bit_eq_div) (simp add: unat_div unat_mod)
qed

lemma top_digit: "high_half w div 16 ^ 3 mod 16 = unat (take_bit 4 (drop_bit 28 w))"
proof -
  have "unat w div 65536 div 4096 = unat w div 268435456" by (simp flip: div_mult2_eq)
  then show ?thesis
    by (simp only: high_half_def unsigned_take_bit_eq unsigned_drop_bit_eq take_bit_eq_mod
        drop_bit_eq_div) (simp add: unat_div unat_mod)
qed

lemma version_digit: "low_half (version_word r) div 16 ^ 3 mod 16 = 4"
proof -
  have "take_bit 4 (drop_bit 12 (version_word r)) = 4"
    unfolding version_word_def drop_bit_or drop_bit_and take_bit_or take_bit_and by simp
  then show ?thesis by (simp only: third_digit) simp
qed

lemma variant_digit: "high_half (variant_word r) div 16 ^ 3 mod 16 \<in> {8, 9, 10, 11}"
proof -
  let ?t = "take_bit 4 (drop_bit 28 r)"
  have "take_bit 4 (drop_bit 28 (variant_word r)) = (?t AND 3) OR 8"
    unfolding variant_word_def drop_bit_or drop_bit_and take_bit_or take_bit_and by simp
  moreover have "?t AND 3 = 0 \<or> ?t AND 3 = 1 \<or> ?t AND 3 = 2 \<or> ?t AND 3 = 3"
  proof -
    have "?t AND 3 = take_bit 2 ?t" by (simp only: take_bit_eq_mask) (simp add: mask_eq_exp_minus_1)
    then have "unat (?t AND 3) < 4" by (simp only: unsigned_take_bit_eq) (simp add: take_bit_eq_mod)
    then have "unat (?t AND 3) = 0 \<or> unat (?t AND 3) = 1 \<or> unat (?t AND 3) = 2 \<or> unat (?t AND 3) = 3"
      by linarith
    then show ?thesis by (simp add: word_unat_eq_iff)
  qed
  ultimately show ?thesis unfolding top_digit by (elim disjE) simp_all
qed

lemma new_session_id_uuid: "uuid_v4 (new_session_id r0 r1 r2 r3)"
proof -
  let ?c = "fixed_hex 4 (low_half (version_word r1))"
    and ?d = "fixed_hex 4 (high_half (variant_word r2))"
  let ?g = "[fixed_hex 8 (unat r0), ''-'', fixed_hex 4 (high_half (version_word r1)), ''-'', ?c,
      ''-'', ?d, ''-'', fixed_hex 4 (low_half (variant_word r2)) @ fixed_hex 8 (unat r3)]"
  have id: "new_session_id r0 r1 r2 r3 = concat ?g"
    unfolding new_session_id_groups by simp
  have groups: "chunks [8, 1, 4, 1, 4, 1, 4, 1, 12] (concat ?g) = ?g"
    by (rule chunks_concat) simp
  have four: "fixed_hex 4 k ! 0 = digit_char (k div 16 ^ 3 mod 16)" for k
  proof -
    have "Suc 3 = 4" by simp
    then show ?thesis using fixed_hex_first [of 3 k] by (simp only:)
  qed
  have "?c ! 0 = CHR ''4''"
  proof -
    have "digit_char 4 = CHR ''4''" by code_simp
    then show ?thesis by (simp only: four version_digit)
  qed
  moreover have "?d ! 0 \<in> set ''89ab''"
  proof -
    have "\<forall>k \<in> set [8, 9, 10, 11]. digit_char k \<in> set ''89ab''" by code_simp
    then have "\<forall>k \<in> {8, 9, 10, 11}. digit_char k \<in> set ''89ab''" by (simp only: list.set)
    then show ?thesis unfolding four by (rule bspec [OF _ variant_digit])
  qed
  moreover have "length (concat ?g) = 36" by simp
  ultimately show ?thesis
    unfolding uuid_v4_def id groups Let_def by (simp add: hex_fixed)
qed

lemma masked_word_inject:
  "(a AND m) OR v = (b AND m) OR v \<longleftrightarrow> a AND m = b AND (m :: u32)" if "v AND m = 0"
proof
  assume "(a AND m) OR v = (b AND m) OR v"
  then have "((a AND m) OR v) AND m = ((b AND m) OR v) AND m" by simp
  then show "a AND m = b AND m"
    by (simp add: bit.conj_disj_distrib2 that and.assoc)
qed simp

lemma new_session_id_inject:
  "new_session_id r0 r1 r2 r3 = new_session_id q0 q1 q2 q3 \<longleftrightarrow>
     r0 = q0 \<and> version_word r1 = version_word q1 \<and> variant_word r2 = variant_word q2 \<and> r3 = q3"
proof -
  have "unat (w :: u32) < 16 ^ 8" for w by (rule less_le_trans [OF unat_u32_less]) simp
  then show ?thesis
    unfolding new_session_id_groups
      halves_inject [of "version_word r1" "version_word q1", symmetric]
      halves_inject [of "variant_word r2" "variant_word q2", symmetric]
      word_unat_eq_iff [of r0 q0] word_unat_eq_iff [of r3 q3]
    by (auto simp: fixed_hex_inject halves_less)
qed

text \<open>
  C38. The session identifier is a well-formed version 4 UUID: 36 characters that fit the array of
  37, five groups of lower-case hexadecimal digits, the version digit 4 and a variant digit, for
  every four random words; and no randomness is lost, since two draws give the same identifier
  exactly when they agree on all bits but the four of the version and the two of the variant.
\<close>

theorem session_id_is_uuid:
  "uuid_v4 (new_session_id r0 r1 r2 r3) \<and>
   (new_session_id r0 r1 r2 r3 = new_session_id q0 q1 q2 q3 \<longleftrightarrow>
      r0 = q0 \<and> r1 AND 0xffff0fff = q1 AND 0xffff0fff \<and>
      r2 AND 0x3fffffff = q2 AND 0x3fffffff \<and> r3 = q3)"
  by (simp only: new_session_id_uuid new_session_id_inject version_word_def variant_word_def)
     (simp add: masked_word_inject)

end
