(* ===== verification/Transport_Link.thy ===== *)
theory Transport_Link
  imports Transport
begin

text \<open>
  What the transport keeps to whatever the runtime's handlers do, provided they keep the few promises
  stated in the locale \<open>transport_client\<close>: they leave the link (socket, back-off, decoder, session)
  alone, and their own state follows the events. The lemmas show that connecting, polling and
  disconnecting keep the transport and the client in agreement. The last section says what the
  host receives on a new connection, and when the next attempt can be made.
\<close>

section \<open>The link\<close>

definition link :: "transport \<Rightarrow> int \<times> i64 \<times> watch_frame_decoder \<times> string" where
  "link t = (socket_fd t, next_connect_at t, decoder t, session_id t)"

lemma link_eqD:
  "link t = link t' \<Longrightarrow> socket_fd t = socket_fd t'"
  "link t = link t' \<Longrightarrow> decoder t = decoder t'"
  "link t = link t' \<Longrightarrow> session_id t = session_id t'"
  "link t = link t' \<Longrightarrow> next_connect_at t = next_connect_at t'"
  by (simp_all add: link_def)

lemma link_message_id [simp]: "link (t\<lparr>next_message_id := n\<rparr>) = link t"
  by (simp add: link_def)

text \<open>Sending changes the environment and the message counter, nothing else.\<close>

lemma send_frame_keeps [simp]:
  "trans (snd (send_frame os c text w)) = trans w" "app (snd (send_frame os c text w)) = app w"
  by (simp_all add: send_frame_def split: prod.split)

lemma request_sync_keeps [simp]:
  "link (trans (snd (transport_request_sync os r w))) = link (trans w)"
  "app (snd (transport_request_sync os r w)) = app w"
  by (simp_all add: transport_request_sync_def take_message_id_def)

lemma send_frame_result:
  "send_frame os c text w = (r, w') \<Longrightarrow> trans w' = trans w \<and> app w' = app w"
  by (metis send_frame_keeps snd_conv)

lemma send_bootstrap_keeps [simp]:
  "link (trans (snd (send_bootstrap os w))) = link (trans w) \<and> app (snd (send_bootstrap os w)) = app w"
proof -
  let ?w1 = "snd (take_message_id w)"
  obtain r w2 where sent: "send_frame os 512
      (hello_frame (next_message_id (trans w)) (session_id (trans ?w1))) ?w1 = (r, w2)" by fastforce
  from send_frame_result [OF this] have "link (trans w2) = link (trans w)" "app w2 = app w"
    by (simp_all add: take_message_id_def)
  with sent show ?thesis
    by (cases r) (simp_all add: send_bootstrap_def take_message_id_def)
qed

lemma unsupported_keeps [simp]:
  "link (trans (snd (send_unsupported_result os m w))) = link (trans w)"
  "app (snd (send_unsupported_result os m w)) = app w"
  by (simp_all add: send_unsupported_result_def take_message_id_def)

lemma music_action_keeps [simp]:
  "link (trans (snd (transport_send_music_action os p w))) = link (trans w) \<and>
   app (snd (transport_send_music_action os p w)) = app w"
proof -
  let ?w1 = "snd (take_message_id w)"
  obtain r w2 where sent: "send_frame os 256 (music_action_frame (next_message_id (trans w)) p) ?w1 = (r, w2)"
    by fastforce
  from send_frame_result [OF this] have "link (trans w2) = link (trans w)" "app w2 = app w"
    by (simp_all add: take_message_id_def)
  with sent show ?thesis
    by (cases r) (simp_all add: transport_send_music_action_def take_message_id_def)
qed

lemma uptime_keeps [simp]:
  "trans (snd (uptime os w)) = trans w" "app (snd (uptime os w)) = app w"
  by (simp_all add: uptime_def split: prod.split)

lemma back_off_link:
  "link (trans (back_off os w)) =
     (socket_fd (trans w), fst (k_uptime_get os (env w)) + RECONNECT_INTERVAL_MS, decoder (trans w),
      session_id (trans w))"
  "app (back_off os w) = app w"
  by (simp_all add: back_off_def uptime_def set_next_connect_def link_def split: prod.split)

text \<open>A property the handler keeps is kept by a whole push.\<close>

lemma push_invariant:
  assumes "\<And>m s. P s \<Longrightarrow> P (snd (h m s))"
  shows "P s \<Longrightarrow> P (snd (snd (watch_frame_decoder_push J h bs d s)))"
proof (induction bs arbitrary: d s)
  case Nil
  then show ?case by simp
next
  case (Cons b bs)
  have "P s' " if "h m s = (r, s')" for m r s' using assms [OF Cons.prems, of m] that by simp
  then show ?case
    using Cons by (auto simp: Let_def split: sum.split prod.split)
qed

definition wf_link :: "transport \<Rightarrow> bool" where
  "wf_link t \<longleftrightarrow>
     - 1 \<le> socket_fd t \<and> wf_decoder (decoder t) \<and> (socket_fd t < 0 \<longrightarrow> bytes (decoder t) = [])"

section \<open>Clients of the transport\<close>

locale transport_client =
  fixes os :: "'e os"
    and hs :: "('e, 'a) handlers"
    and ok :: "bool \<Rightarrow> 'a \<Rightarrow> bool"
  assumes event_link: "link (trans (raise_event hs event w)) = link (trans w)"
    and message_link: "runtime_message_handler hs = Some h \<Longrightarrow> link (trans (snd (h m w))) = link (trans w)"
    and connected_ok: "ok False (app w) \<Longrightarrow> ok True (app (raise_event hs TRANSPORT_EVENT_CONNECTED w))"
    and disconnected_ok: "ok True (app w) \<Longrightarrow> ok False (app (raise_event hs TRANSPORT_EVENT_DISCONNECTED w))"
    and message_ok: "runtime_message_handler hs = Some h \<Longrightarrow> ok True (app w) \<Longrightarrow> ok True (app (snd (h m w)))"
begin

definition consistent :: "string \<Rightarrow> ('e, 'a) world \<Rightarrow> bool" where
  "consistent session w \<longleftrightarrow>
     wf_link (trans w) \<and> ok (transport_connected w) (app w) \<and> session_id (trans w) = session"

lemma handle_message_keeps:
  "link (trans (snd (handle_message os hs m w))) = link (trans w)"
  "ok True (app w) \<Longrightarrow> ok True (app (snd (handle_message os hs m w)))"
  by (auto simp: handle_message_def message_link message_ok split: option.split)

lemma disconnect_link:
  "\<exists>e. link (trans (disconnect os hs w)) =
     (min (socket_fd (trans w)) (- 1), fst (k_uptime_get os e) + RECONNECT_INTERVAL_MS, empty_decoder,
      session_id (trans w))"
proof -
  let ?w1 = "set_socket (- 1) (w\<lparr>env := zsock_close os (socket_fd (trans w)) (env w)\<rparr>)"
  let ?w2 = "if 0 \<le> socket_fd (trans w) then raise_event hs TRANSPORT_EVENT_DISCONNECTED ?w1 else w"
  have w1: "link (trans ?w1) = (- 1, next_connect_at (trans w), decoder (trans w), session_id (trans w))"
    by (simp add: link_def set_socket_def)
  have w2: "socket_fd (trans ?w2) = min (socket_fd (trans w)) (- 1) \<and>
      session_id (trans ?w2) = session_id (trans w)"
  proof (cases "0 \<le> socket_fd (trans w)")
    case True
    with w1 event_link [of TRANSPORT_EVENT_DISCONNECTED ?w1] show ?thesis by (simp add: link_def)
  qed simp
  have "d\<lparr>bytes := []\<rparr> = empty_decoder" for d :: watch_frame_decoder
    by (simp add: empty_decoder_def)
  moreover have "disconnect os hs w =
      back_off os (set_decoder ((decoder (trans ?w2))\<lparr>bytes := []\<rparr>) ?w2)"
    by (simp only: disconnect_def Let_def)
  ultimately show ?thesis
    by (auto simp: back_off_link set_decoder_def w2 simp del: if_split intro!: exI)
qed

lemma consistent_disconnect:
  assumes "- 1 \<le> socket_fd (trans w)" "ok (transport_connected w) (app w)" "session_id (trans w) = s"
  shows "consistent s (disconnect os hs w)"
proof -
  obtain e where l: "link (trans (disconnect os hs w)) =
     (- 1, fst (k_uptime_get os e) + RECONNECT_INTERVAL_MS, empty_decoder, s)"
    using disconnect_link [of w] assms(1,3) by (auto simp: min_def split: if_splits)
  have "ok False (app (disconnect os hs w))"
  proof (cases "0 \<le> socket_fd (trans w)")
    case True
    let ?w1 = "set_socket (- 1) (w\<lparr>env := zsock_close os (socket_fd (trans w)) (env w)\<rparr>)"
    have "ok True (app ?w1)" using assms(2) True by (simp add: transport_connected_def set_socket_def)
    then have "ok False (app (raise_event hs TRANSPORT_EVENT_DISCONNECTED ?w1))"
      by (rule disconnected_ok)
    with True show ?thesis by (simp add: disconnect_def Let_def back_off_link set_decoder_def)
  next
    case False
    with assms(2) show ?thesis
      by (simp add: disconnect_def Let_def back_off_link set_decoder_def transport_connected_def)
  qed
  with l show ?thesis
    by (simp add: consistent_def wf_link_def transport_connected_def link_def)
       (simp add: empty_decoder_def)
qed

lemma consistent_back_off: "consistent s w \<Longrightarrow> consistent s (back_off os w)"
  using back_off_link [of os w]
  by (simp add: consistent_def wf_link_def transport_connected_def link_def)

lemma consistent_uptime: "consistent s w \<Longrightarrow> consistent s (snd (uptime os w))"
  by (simp add: consistent_def transport_connected_def)

lemma consistent_env: "consistent s (w\<lparr>env := e\<rparr>) \<longleftrightarrow> consistent s w"
  by (simp add: consistent_def transport_connected_def)

lemma consistent_established:
  assumes "consistent s w" "socket_fd (trans w) < 0" "0 \<le> fd"
  shows "consistent s (case send_bootstrap os (raise_event hs TRANSPORT_EVENT_CONNECTED (set_socket fd w)) of
      (Inl _, w) \<Rightarrow> disconnect os hs w | (Inr _, w) \<Rightarrow> w)"
proof -
  let ?w1 = "raise_event hs TRANSPORT_EVENT_CONNECTED (set_socket fd w)"
  have l: "link (trans ?w1) = (fd, next_connect_at (trans w), decoder (trans w), s)"
    using event_link [of TRANSPORT_EVENT_CONNECTED "set_socket fd w"] assms(1)
    by (simp add: link_def set_socket_def consistent_def)
  have "ok True (app ?w1)"
    using assms by (intro connected_ok) (simp add: consistent_def transport_connected_def set_socket_def)
  moreover obtain r w2 where b: "send_bootstrap os ?w1 = (r, w2)" by fastforce
  ultimately have w2: "link (trans w2) = (fd, next_connect_at (trans w), decoder (trans w), s)"
      "ok True (app w2)"
    using send_bootstrap_keeps [of os ?w1] l by simp_all
  then have "consistent s w2"
    using assms by (simp add: link_def consistent_def transport_connected_def wf_link_def)
  then show ?thesis
    using b assms(3) w2 by (cases r) (simp_all add: consistent_disconnect link_def transport_connected_def)
qed

lemma consistent_connect: "consistent s w \<Longrightarrow> consistent s (connect_if_due os hs w)"
proof -
  assume c: "consistent s w"
  obtain now w1 where up: "uptime os w = (now, w1)" by fastforce
  then have w1: "consistent s w1" "socket_fd (trans w1) = socket_fd (trans w)"
    using consistent_uptime [OF c] uptime_keeps [of os w] by simp_all
  obtain fd e where sock: "zsock_socket os (env w1) = (fd, e)" by fastforce
  obtain r e' where con: "zsock_connect os fd e = (r, e')" by fastforce
  show ?thesis
    using c w1 consistent_established [of s "w1\<lparr>env := e'\<rparr>" fd]
    by (simp add: connect_if_due_def up sock con consistent_env consistent_back_off Let_def)
qed

lemma consistent_poll: "consistent s w \<Longrightarrow> consistent s (transport_poll J os hs w)"
proof -
  assume "consistent s w"
  let ?w1 = "connect_if_due os hs w"
  have c: "consistent s ?w1" by (rule consistent_connect) fact
  obtain answer e where recv: "zsock_recv os (socket_fd (trans ?w1)) 1024 (env ?w1) = (answer, e)"
    by fastforce
  let ?w2 = "?w1\<lparr>env := e\<rparr>"
  have c2: "consistent s ?w2" using c by (simp add: consistent_env)
  have drop: "consistent s (disconnect os hs ?w2)"
    using c2 by (intro consistent_disconnect) (simp_all add: consistent_def wf_link_def)
  have received: "consistent s (case watch_frame_decoder_push J (handle_message os hs) bs (decoder (trans ?w2)) ?w2 of
      (result, d, w) \<Rightarrow> let w = set_decoder d w in if result \<noteq> Push_OK then disconnect os hs w else w)"
    if on: "\<not> socket_fd (trans ?w2) < 0" for bs
  proof -
    obtain result d w3 where push: "watch_frame_decoder_push J (handle_message os hs) bs
        (decoder (trans ?w2)) ?w2 = (result, d, w3)" by (metis prod_cases3)
    let ?P = "\<lambda>w. link (trans w) = link (trans ?w2) \<and> ok True (app w)"
    have "?P ?w2" using c2 on by (simp add: consistent_def transport_connected_def)
    from push_invariant [where P = ?P, OF _ this, of "handle_message os hs" J bs "decoder (trans ?w2)"]
    have w3: "?P w3" using push by (simp add: handle_message_keeps)
    have d: "wf_decoder d"
      using wf_push [of "decoder (trans ?w2)" J "handle_message os hs" bs ?w2] push c2
      by (simp add: consistent_def wf_link_def)
    have kept: "consistent s (set_decoder d w3)"
      using w3 d on c2
      by (simp add: consistent_def wf_link_def set_decoder_def transport_connected_def link_def)
    then have "consistent s (disconnect os hs (set_decoder d w3))"
      by (intro consistent_disconnect) (simp_all add: consistent_def wf_link_def)
    with kept show ?thesis unfolding push by (simp add: Let_def)
  qed
  show ?thesis
    using c c2 drop received
    by (simp add: transport_poll_def recv Let_def split: recv_result.split)
qed

lemma consistent_init:
  assumes "trans w = transport_start" "ok False (app w)"
  shows "\<exists>s. uuid_v4 s \<and> consistent s (transport_init os hs w)"
proof -
  obtain r0 e0 where 0: "sys_rand32_get os (env w) = (r0, e0)" by fastforce
  obtain r1 e1 where 1: "sys_rand32_get os e0 = (r1, e1)" by fastforce
  obtain r2 e2 where 2: "sys_rand32_get os e1 = (r2, e2)" by fastforce
  obtain r3 e3 where 3: "sys_rand32_get os e2 = (r3, e3)" by fastforce
  let ?s = "new_session_id r0 r1 r2 r3"
  let ?w = "w\<lparr>env := e3, trans := (trans w)\<lparr>session_id := ?s, next_connect_at := 0\<rparr>\<rparr>"
  have "consistent ?s ?w"
    using assms
    by (simp add: consistent_def wf_link_def transport_connected_def transport_start_def)
       (simp add: empty_decoder_def)
  moreover have "transport_init os hs w = connect_if_due os hs ?w"
    by (simp add: transport_init_def 0 1 2 3)
  ultimately show ?thesis using consistent_connect new_session_id_uuid by metis
qed

end

text \<open>A single bad frame, or a message the runtime refuses, ends the connection.\<close>

lemma first_error_disconnects:
  assumes "connect_if_due os hs w = w1" "0 \<le> socket_fd (trans w1)"
    and "zsock_recv os (socket_fd (trans w1)) 1024 (env w1) = (Received bs, e)" "bs \<noteq> []"
    and "watch_frame_decoder_push J (handle_message os hs) bs (decoder (trans w1)) (w1\<lparr>env := e\<rparr>) = (result, d, w2)"
    and "result \<noteq> Push_OK"
  shows "transport_poll J os hs w = disconnect os hs (set_decoder d w2)"
  using assms by (simp add: transport_poll_def Let_def)

section \<open>What the host sees of a new connection\<close>

lemma send_frame_stream:
  assumes "stream_os os stream" "send_frame os c frame w = (r, w')" "0 < length frame" "length frame < c"
  shows "\<exists>sent. prefix sent frame \<and> stream (env w') = stream (env w) @ sent \<and>
    (r = Inr () \<longleftrightarrow> sent = frame) \<and> w' = w\<lparr>env := env w'\<rparr>"
proof -
  obtain r' e' where sent: "send_bytes os (socket_fd (trans w)) frame (env w) = (r', e')" by fastforce
  have "stream_socket os (socket_fd (trans w)) stream" using assms(1) by (simp add: stream_os_def)
  from send_bytes_spec [OF this sent] obtain k where
    k: "k \<le> length frame" "stream e' = stream (env w) @ take k frame" "r' = Inr () \<longleftrightarrow> k = length frame"
    by blast
  have "take k frame = frame \<longleftrightarrow> k = length frame" using k(1) by auto
  moreover have "r' = r" "w' = w\<lparr>env := e'\<rparr>"
    using assms(2-4) sent by (simp_all add: send_frame_def)
  ultimately show ?thesis
    using k take_is_prefix [of k frame] by (intro exI [of _ "take k frame"]) simp
qed

text \<open>
  C32. What the host receives first: on stream sockets the bootstrap of a new connection adds to
  the stream a prefix of the hello frame followed by the sync request for revision 0, in this
  order and with consecutive identifiers; it reports success exactly when both are out whole,
  and it changes nothing but the environment and the message counter.
\<close>

theorem bootstrap_order:
  assumes "stream_os os stream" and "0 \<le> socket_fd (trans w)"
    and "length (session_id (trans w)) \<le> 36" and "CHR 0x0A \<notin> set (session_id (trans w))"
    and "send_bootstrap os w = (r, w')"
  shows "let n = next_message_id (trans w);
             frames = hello_frame n (session_id (trans w)) @ sync_request_frame (n + 1) 0 in
    (\<exists>sent. prefix sent frames \<and> stream (env w') = stream (env w) @ sent \<and> (r = Inr () \<longleftrightarrow> sent = frames)) \<and>
    app w' = app w \<and> link (trans w') = link (trans w)"
proof -
  let ?n = "next_message_id (trans w)"
  let ?hello = "hello_frame ?n (session_id (trans w))" and ?sync = "sync_request_frame (?n + 1) 0"
  let ?w1 = "w\<lparr>trans := (trans w)\<lparr>next_message_id := ?n + 1\<rparr>\<rparr>"
  note fits = hello_frame_line [OF assms(3,4), of ?n] sync_request_frame_line [of "?n + 1" 0]
  have nonempty: "0 < length ?hello" "0 < length ?sync"
    by (simp_all add: hello_frame_def sync_request_frame_def)
  obtain r1 w2 where hello: "send_frame os 512 ?hello ?w1 = (r1, w2)" by fastforce
  from send_frame_stream [OF assms(1) this nonempty(1)] fits obtain sent1 where
    1: "prefix sent1 ?hello" "stream (env w2) = stream (env w) @ sent1" "r1 = Inr () \<longleftrightarrow> sent1 = ?hello"
       "w2 = ?w1\<lparr>env := env w2\<rparr>" by auto
  have "\<exists>sent. prefix sent (?hello @ ?sync) \<and> stream (env w') = stream (env w) @ sent \<and>
      (r = Inr () \<longleftrightarrow> sent = ?hello @ ?sync)"
  proof (cases r1)
    case (Inl e)
    with assms(5) hello have "r = Inl EIO" "w' = w2"
      by (auto simp: send_bootstrap_def take_message_id_def)
    moreover have "sent1 \<noteq> ?hello @ ?sync" using 1(1) nonempty(2) by (auto dest: prefix_length_le)
    ultimately show ?thesis using 1 by (auto intro: prefix_prefix)
  next
    case (Inr u)
    let ?w3 = "w2\<lparr>trans := (trans w2)\<lparr>next_message_id := next_message_id (trans w2) + 1\<rparr>\<rparr>"
    have "trans w2 = trans ?w1" by (subst 1(4)) simp
    moreover from Inr assms(5) hello have "transport_request_sync os 0 w2 = (r, w')"
      by (simp add: send_bootstrap_def take_message_id_def)
    ultimately have sync: "send_frame os 192 ?sync ?w3 = (r, w')"
      using assms(2) by (simp add: transport_request_sync_def take_message_id_def)
    from send_frame_stream [OF assms(1) this nonempty(2)] fits obtain sent2 where
      2: "prefix sent2 ?sync" "stream (env w') = stream (env w2) @ sent2" "r = Inr () \<longleftrightarrow> sent2 = ?sync"
      by auto
    from Inr 1(3) have "sent1 = ?hello" by simp
    with 1(2) 2 show ?thesis by (intro exI [of _ "?hello @ sent2"]) simp
  qed
  then show ?thesis
    using send_bootstrap_keeps [of os w] assms(5) by (simp add: Let_def)
qed

theorem bootstrap_order_witness:
  "(let w = \<lparr>trans = transport_start\<lparr>socket_fd := 3\<rparr>, env = demo_start, app = ()\<rparr> in
    \<exists>sent. prefix sent (hello_frame 1 [] @ sync_request_frame 2 0) \<and>
      demo_sent (env (snd (send_bootstrap demo_os w))) = sent)"
proof -
  let ?w = "\<lparr>trans = transport_start\<lparr>socket_fd := 3\<rparr>, env = demo_start, app = ()\<rparr>"
  obtain r w' where b: "send_bootstrap demo_os ?w = (r, w')" by fastforce
  have "0 \<le> socket_fd (trans ?w)" "length (session_id (trans ?w)) \<le> 36"
      "CHR 0x0A \<notin> set (session_id (trans ?w))"
    by (simp_all add: transport_start_def)
  from bootstrap_order [OF demo_stream_os this b] show ?thesis
    unfolding Let_def b snd_conv by (simp add: transport_start_def demo_start_def)
qed

end
