(* ===== verification/Renderer.thy ===== *)
theory Renderer
  imports Host_Calls C_Format App_Registry "HOL-Library.State_Monad"
begin

text \<open>
  The renderer (\<open>watch/src/renderer/renderer.h\<close>, \<open>renderer.c\<close>) and the screen transition
  (\<open>watch/src/animation/watch_animation.c\<close>). LVGL is not part of the program, so drawing is a
  state monad on a canvas that records the calls made and numbers the objects LVGL hands out in the
  order of their creation. Gestures are a small state machine that turns the press and release
  events of the input device into the actions the runtime handles.
\<close>

section \<open>Calls of the graphics library\<close>

type_synonym lv_obj = nat

datatype lv_color =
    LV_COLOR_MAKE u8 u8 u8
  | lv_color_black
  | lv_color_white

datatype lv_font = lv_font_unscii_16 | lv_font_montserrat_28

datatype lv_align =
    LV_ALIGN_TOP_LEFT
  | LV_ALIGN_TOP_MID
  | LV_ALIGN_TOP_RIGHT
  | LV_ALIGN_BOTTOM_LEFT
  | LV_ALIGN_BOTTOM_MID
  | LV_ALIGN_CENTER

datatype lv_opa = LV_OPA_COVER | LV_OPA_TRANSP

datatype lv_radius = LV_RADIUS_CIRCLE | LV_RADIUS int

datatype lv_screen_load_anim =
    LV_SCR_LOAD_ANIM_NONE
  | LV_SCR_LOAD_ANIM_MOVE_LEFT
  | LV_SCR_LOAD_ANIM_MOVE_RIGHT

datatype lv_callback = Gesture_event | Activate_event

text \<open>The last argument of the style setters, the selector 0, is left out.\<close>

datatype lv_call =
    Obj_create lv_obj "lv_obj option"
  | Label_create lv_obj lv_obj
  | Label_set_text lv_obj string
  | Label_set_long_mode_wrap lv_obj
  | Set_size lv_obj int int
  | Set_width lv_obj int
  | Obj_center lv_obj
  | Obj_align lv_obj lv_align int int
  | Set_scrollable lv_obj bool
  | Set_clickable lv_obj bool
  | Remove_style_all lv_obj
  | Style_text_font lv_obj lv_font
  | Style_text_color lv_obj lv_color
  | Style_text_align_center lv_obj
  | Style_bg_color lv_obj lv_color
  | Style_bg_opa lv_obj lv_opa
  | Style_pad_all lv_obj int
  | Style_radius lv_obj lv_radius
  | Style_border_width lv_obj int
  | Style_border_color lv_obj lv_color
  | Style_shadow_width lv_obj int
  | Add_event_cb lv_obj lv_callback lv_event_code
  | Screen_load_anim lv_obj lv_screen_load_anim nat nat bool

record canvas =
  next_obj :: nat
  calls :: "lv_call list"

type_synonym 'a drawing = "(canvas, 'a) state"

definition lv :: "lv_call \<Rightarrow> unit drawing" where
  "lv c = State (\<lambda>v. ((), v\<lparr>calls := calls v @ [c]\<rparr>))"

definition lv_obj_create :: "lv_obj option \<Rightarrow> lv_obj drawing" where
  "lv_obj_create parent =
     State (\<lambda>v. (next_obj v, \<lparr>next_obj = next_obj v + 1, calls = calls v @ [Obj_create (next_obj v) parent]\<rparr>))"

definition lv_label_create :: "lv_obj \<Rightarrow> lv_obj drawing" where
  "lv_label_create parent =
     State (\<lambda>v. (next_obj v, \<lparr>next_obj = next_obj v + 1, calls = calls v @ [Label_create (next_obj v) parent]\<rparr>))"

section \<open>Drawing\<close>

definition BG :: lv_color where "BG = LV_COLOR_MAKE 4 7 7"
definition SURFACE :: lv_color where "SURFACE = LV_COLOR_MAKE 8 14 13"
definition ACCENT :: lv_color where "ACCENT = LV_COLOR_MAKE 105 240 166"
definition MUTED :: lv_color where "MUTED = LV_COLOR_MAKE 126 146 138"
definition LINE :: lv_color where "LINE = LV_COLOR_MAKE 34 67 55"

definition label :: "lv_obj \<Rightarrow> string \<Rightarrow> lv_font \<Rightarrow> lv_color \<Rightarrow> lv_obj drawing" where
  "label parent t font color = do {
     object \<leftarrow> lv_label_create parent;
     lv (Label_set_text object t);
     lv (Style_text_font object font);
     lv (Style_text_color object color);
     State_Monad.return object
   }"

definition face_create :: "lv_obj \<Rightarrow> lv_obj drawing" where
  "face_create screen = do {
     lv (Style_bg_color screen lv_color_black);
     lv (Style_bg_opa screen LV_OPA_COVER);
     lv (Style_pad_all screen 0);
     face \<leftarrow> lv_obj_create (Some screen);
     lv (Set_size face 438 438);
     lv (Obj_center face);
     lv (Set_scrollable face False);
     lv (Style_radius face LV_RADIUS_CIRCLE);
     lv (Style_bg_color face BG);
     lv (Style_bg_opa face LV_OPA_COVER);
     lv (Style_border_width face 2);
     lv (Style_border_color face LINE);
     lv (Style_pad_all face 0);
     State_Monad.return face
   }"

definition gesture_layer_create :: "lv_obj \<Rightarrow> unit drawing" where
  "gesture_layer_create face = do {
     layer \<leftarrow> lv_obj_create (Some face);
     lv (Remove_style_all layer);
     lv (Set_size layer 438 438);
     lv (Obj_center layer);
     lv (Set_clickable layer True);
     lv (Set_scrollable layer False);
     lv (Add_event_cb layer Gesture_event LV_EVENT_PRESSED);
     lv (Add_event_cb layer Gesture_event LV_EVENT_PRESSING);
     lv (Add_event_cb layer Gesture_event LV_EVENT_RELEASED);
     lv (Add_event_cb layer Gesture_event LV_EVENT_PRESS_LOST);
     lv (Add_event_cb layer Activate_event LV_EVENT_SHORT_CLICKED)
   }"

text \<open>\<open>%02u / %02u\<close> of two \<open>unsigned int\<close> values.\<close>

definition print_position :: "nat \<Rightarrow> nat \<Rightarrow> string" where
  "print_position i n = pad_zeros 2 (print_dec (i mod 2 ^ 32)) @ '' / '' @ pad_zeros 2 (print_dec n)"

definition page_indicator :: "lv_obj \<Rightarrow> watch_screen \<Rightarrow> unit drawing" where
  "page_indicator face screen = do {
     let t = snprintf_text 16 (print_position (screen_num screen + 1) (screen_num WATCH_SCREEN_COUNT));
     object \<leftarrow> label face t lv_font_unscii_16 MUTED;
     lv (Set_width object 120);
     lv (Style_text_align_center object);
     lv (Obj_align object LV_ALIGN_BOTTOM_MID 0 (- 43))
   }"

text \<open>The degree sign is the two bytes of its UTF-8 form.\<close>

definition degrees :: string where
  "degrees = [CHR 0xC2, CHR 0xB0, CHR ''C'']"

definition render_home :: "lv_obj \<Rightarrow> watch_state \<Rightarrow> unit drawing" where
  "render_home face s = do {
     let battery = snprintf_text 8 (print_dec (unat (battery_percent s)) @ ''%'');
     let temperature = snprintf_text 12 (print_int (sint (temperature_c s)) @ degrees);
     let steps = snprintf_text 24 (print_dec (unat (steps s)) @ '' STEPS'');
     let condition = snprintf_text 48 (cstr (weather_condition s));
     object \<leftarrow> label face (time_text s) lv_font_unscii_16 lv_color_white;
     lv (Obj_align object LV_ALIGN_TOP_LEFT 82 42);
     object \<leftarrow> label face battery lv_font_unscii_16 MUTED;
     lv (Obj_align object LV_ALIGN_TOP_RIGHT (- 82) 42);
     object \<leftarrow> label face (date_text s) lv_font_unscii_16 MUTED;
     lv (Obj_align object LV_ALIGN_TOP_MID 0 96);
     weather \<leftarrow> lv_obj_create (Some face);
     lv (Remove_style_all weather);
     lv (Set_size weather 250 112);
     lv (Obj_align weather LV_ALIGN_CENTER 0 (- 8));
     lv (Style_bg_opa weather LV_OPA_TRANSP);
     lv (Style_border_width weather 0);
     lv (Style_shadow_width weather 0);
     object \<leftarrow> label weather temperature lv_font_montserrat_28 lv_color_white;
     lv (Obj_align object LV_ALIGN_CENTER 0 (- 16));
     object \<leftarrow> label weather condition lv_font_unscii_16 MUTED;
     lv (Obj_align object LV_ALIGN_CENTER 0 20);
     (if host_data_stale s then do {
        object \<leftarrow> label face ''CACHED'' lv_font_unscii_16 ACCENT;
        lv (Obj_align object LV_ALIGN_CENTER 0 66)
      } else State_Monad.return ());
     object \<leftarrow> label face steps lv_font_unscii_16 lv_color_white;
     lv (Obj_align object LV_ALIGN_BOTTOM_MID 0 (- 112));
     page_indicator face (active_screen s)
   }"

text \<open>The texts that \<open>render_app\<close> selects before it draws.\<close>

definition shown_notification :: "watch_state \<Rightarrow> watch_notification option" where
  "shown_notification s =
     (if stored_count (notifications s) > 0
      then Some (entries (notifications s) ! unat (active_index (notifications s))) else None)"

definition app_title :: "watch_state \<Rightarrow> string" where
  "app_title s =
     (case app_registry_find (active_screen s) of Some app \<Rightarrow> app_name app | None \<Rightarrow> ''Unknown'')"

definition app_headline_text :: "watch_state \<Rightarrow> string" where
  "app_headline_text s =
     (case (active_screen s = WATCH_SCREEN_NOTIFICATIONS, shown_notification s) of
        (True, Some n) \<Rightarrow> cstr (title n)
      | _ \<Rightarrow>
          if active_screen s = WATCH_SCREEN_MUSIC then cstr (music_title s)
          else case app_registry_find (active_screen s) of
            Some app \<Rightarrow> app_headline app
          | None \<Rightarrow> ''Unavailable'')"

definition app_detail :: "watch_state \<Rightarrow> string" where
  "app_detail s =
     (case (active_screen s = WATCH_SCREEN_NOTIFICATIONS, shown_notification s) of
        (True, Some n) \<Rightarrow> cstr (body n)
      | _ \<Rightarrow>
          if active_screen s = WATCH_SCREEN_MUSIC then
            (if music_action_feedback s ! 0 \<noteq> NUL then cstr (music_action_feedback s)
             else if music_playing s then ''PLAYING / TAP TO PAUSE'' else ''PAUSED / TAP TO PLAY'')
          else case app_registry_find (active_screen s) of
            Some app \<Rightarrow> app_offline_message app
          | None \<Rightarrow> ''Application metadata is missing.'')"

definition connection_status :: "watch_state \<Rightarrow> string" where
  "connection_status s =
     (if connection s = WATCH_CONNECTION_ONLINE then ''HOST SYNCED''
      else if host_data_stale s then ''CACHE / STALE'' else ''OFFLINE READY'')"

definition render_app :: "lv_obj \<Rightarrow> watch_state \<Rightarrow> unit drawing" where
  "render_app face s = do {
     object \<leftarrow> label face (connection_status s) lv_font_unscii_16 ACCENT;
     lv (Obj_align object LV_ALIGN_TOP_LEFT 76 48);
     object \<leftarrow> label face (app_title s) lv_font_unscii_16 lv_color_white;
     lv (Obj_align object LV_ALIGN_TOP_LEFT 76 78);
     card \<leftarrow> lv_obj_create (Some face);
     lv (Set_size card 350 210);
     lv (Obj_align card LV_ALIGN_CENTER 0 20);
     lv (Style_radius card (LV_RADIUS 6));
     lv (Style_bg_color card SURFACE);
     lv (Style_border_width card 1);
     lv (Style_border_color card LINE);
     lv (Style_pad_all card 18);
     object \<leftarrow> label card (app_headline_text s) lv_font_unscii_16 lv_color_white;
     lv (Obj_align object LV_ALIGN_TOP_LEFT 0 0);
     lv (Set_width object 310);
     lv (Label_set_long_mode_wrap object);
     (if active_screen s = WATCH_SCREEN_NOTIFICATIONS \<and> stored_count (notifications s) > 1 then do {
        let position = snprintf_text 16 (print_position
          (unat (active_index (notifications s)) + 1) (unat (stored_count (notifications s))));
        object \<leftarrow> label card position lv_font_unscii_16 ACCENT;
        lv (Obj_align object LV_ALIGN_BOTTOM_LEFT 0 0)
      } else State_Monad.return ());
     object \<leftarrow> label card (app_detail s) lv_font_unscii_16 MUTED;
     lv (Obj_align object LV_ALIGN_TOP_LEFT 0 36);
     lv (Set_width object 310);
     lv (Label_set_long_mode_wrap object);
     page_indicator face (active_screen s)
   }"

definition watch_animation_load :: "lv_obj \<Rightarrow> bool \<Rightarrow> unit drawing" where
  "watch_animation_load screen backwards =
     lv (Screen_load_anim screen
       (if backwards then LV_SCR_LOAD_ANIM_MOVE_RIGHT else LV_SCR_LOAD_ANIM_MOVE_LEFT) 260 0 True)"

definition renderer_render :: "watch_state \<Rightarrow> bool \<Rightarrow> unit drawing" where
  "renderer_render s backwards = do {
     screen \<leftarrow> lv_obj_create None;
     face \<leftarrow> face_create screen;
     (if active_screen s = WATCH_SCREEN_HOME then render_home face s else render_app face s);
     gesture_layer_create face;
     watch_animation_load screen backwards
   }"

definition renderer_refresh :: "watch_state \<Rightarrow> unit drawing" where
  "renderer_refresh s = do {
     screen \<leftarrow> lv_obj_create None;
     face \<leftarrow> face_create screen;
     (if active_screen s = WATCH_SCREEN_HOME then render_home face s else render_app face s);
     gesture_layer_create face;
     lv (Screen_load_anim screen LV_SCR_LOAD_ANIM_NONE 0 0 True)
   }"

section \<open>Gestures\<close>

datatype renderer_action =
    RENDERER_ACTION_NEXT
  | RENDERER_ACTION_PREVIOUS
  | RENDERER_ACTION_NEXT_ITEM
  | RENDERER_ACTION_PREVIOUS_ITEM
  | RENDERER_ACTION_ACTIVATE

text \<open>
  The static variables. \<open>handler_set\<close> says that \<open>handler\<close> is not NULL, \<open>frames_subscribed\<close>
  that \<open>frame_event\<close> has been registered with the display.
\<close>

record renderer =
  handler_set :: bool
  frames_subscribed :: bool
  swipe_start :: lv_point
  swipe_last :: lv_point
  swipe_tracking :: bool
  rendered_frames :: u32

definition zero_renderer :: renderer where
  "zero_renderer =
     \<lparr>handler_set = False, frames_subscribed = False, swipe_start = \<lparr>point_x = 0, point_y = 0\<rparr>,
      swipe_last = \<lparr>point_x = 0, point_y = 0\<rparr>, swipe_tracking = False, rendered_frames = 0\<rparr>"

definition frame_event :: "renderer \<Rightarrow> renderer" where
  "frame_event r = r\<lparr>rendered_frames := rendered_frames r + 1\<rparr>"

definition renderer_frame_count :: "renderer \<Rightarrow> u32" where
  "renderer_frame_count r = rendered_frames r"

definition renderer_init :: "bool \<Rightarrow> renderer \<Rightarrow> renderer" where
  "renderer_init display_present r =
     (let r = r\<lparr>handler_set := True\<rparr> in
      if display_present then r\<lparr>frames_subscribed := True\<rparr> else r)"

text \<open>The action a swipe stands for, as the code selects it.\<close>

definition swipe_action :: "watch_swipe \<Rightarrow> renderer_action" where
  "swipe_action swipe =
     (if swipe = WATCH_SWIPE_NEXT then RENDERER_ACTION_NEXT
      else if swipe = WATCH_SWIPE_PREVIOUS then RENDERER_ACTION_PREVIOUS
      else if swipe = WATCH_SWIPE_NEXT_ITEM then RENDERER_ACTION_NEXT_ITEM
      else RENDERER_ACTION_PREVIOUS_ITEM)"

text \<open>The callbacks yield the action they hand to the handler, if any.\<close>

definition gesture_event :: "lv_event \<Rightarrow> renderer \<Rightarrow> renderer_action option \<times> renderer" where
  "gesture_event event r =
     (case event_indev event of
        None \<Rightarrow> (None, r)
      | Some point \<Rightarrow>
          if event_code event = LV_EVENT_PRESSED then
            (None, r\<lparr>swipe_start := point, swipe_last := point, swipe_tracking := True\<rparr>)
          else if event_code event = LV_EVENT_PRESSING \<and> swipe_tracking r then
            (None, r\<lparr>swipe_last := point\<rparr>)
          else if (event_code event = LV_EVENT_RELEASED \<or> event_code event = LV_EVENT_PRESS_LOST) \<and>
                  swipe_tracking r then
            (let r = r\<lparr>swipe_last := point\<rparr>;
                 dx = point_x (swipe_last r) - point_x (swipe_start r);
                 dy = point_y (swipe_last r) - point_y (swipe_start r);
                 r = r\<lparr>swipe_tracking := False\<rparr>;
                 swipe = watch_swipe_classify dx dy
             in if handler_set r \<and> swipe \<noteq> WATCH_SWIPE_NONE then (Some (swipe_action swipe), r)
                else (None, r))
          else (None, r))"

definition activate_event :: "renderer \<Rightarrow> renderer_action option" where
  "activate_event r = (if handler_set r then Some RENDERER_ACTION_ACTIVATE else None)"

text \<open>
  The callbacks \<open>gesture_layer_create\<close> and \<open>renderer_init\<close> register, by the code of the event.
\<close>

definition lv_dispatch :: "lv_event \<Rightarrow> renderer \<Rightarrow> renderer_action option \<times> renderer" where
  "lv_dispatch event r =
     (case event_code event of
        LV_EVENT_SHORT_CLICKED \<Rightarrow> (activate_event r, r)
      | LV_EVENT_REFR_READY \<Rightarrow> (None, if frames_subscribed r then frame_event r else r)
      | _ \<Rightarrow> gesture_event event r)"

text \<open>The actions of a series of events, in order.\<close>

fun lv_actions :: "lv_event list \<Rightarrow> renderer \<Rightarrow> renderer_action list \<times> renderer" where
  "lv_actions [] r = ([], r)"
| "lv_actions (e # es) r =
     (case lv_dispatch e r of (a, r) \<Rightarrow>
        (case lv_actions es r of (as, r) \<Rightarrow> ((case a of None \<Rightarrow> as | Some x \<Rightarrow> x # as), r)))"

definition pointer_event :: "lv_event_code \<Rightarrow> lv_point \<Rightarrow> lv_event" where
  "pointer_event code p = \<lparr>event_code = code, event_indev = Some p\<rparr>"

lemma lv_actions_append:
  "lv_actions (es @ es') r =
     (case lv_actions es r of (as, r) \<Rightarrow> (case lv_actions es' r of (bs, r) \<Rightarrow> (as @ bs, r)))"
  by (induction es arbitrary: r) (auto split: prod.split option.split)

lemma lv_actions_moves:
  "swipe_tracking r \<Longrightarrow>
   \<exists>q. lv_actions (map (pointer_event LV_EVENT_PRESSING) ps) r = ([], r\<lparr>swipe_last := q\<rparr>)"
proof (induction ps arbitrary: r)
  case Nil
  then show ?case by (intro exI [of _ "swipe_last r"]) simp
next
  case (Cons p ps)
  obtain q where "lv_actions (map (pointer_event LV_EVENT_PRESSING) ps) (r\<lparr>swipe_last := p\<rparr>) =
      ([], r\<lparr>swipe_last := p\<rparr>\<lparr>swipe_last := q\<rparr>)"
    using Cons.IH [of "r\<lparr>swipe_last := p\<rparr>"] Cons.prems by auto
  moreover have "lv_dispatch (pointer_event LV_EVENT_PRESSING p) r = (None, r\<lparr>swipe_last := p\<rparr>)"
    using Cons.prems by (simp add: lv_dispatch_def gesture_event_def pointer_event_def)
  ultimately show ?case by (intro exI [of _ q]) simp
qed

definition release_code :: "lv_event_code \<Rightarrow> bool" where
  "release_code c \<longleftrightarrow> c = LV_EVENT_RELEASED \<or> c = LV_EVENT_PRESS_LOST"

text \<open>No event but a press starts a swipe.\<close>

lemma idle_silent:
  "\<not> swipe_tracking r \<Longrightarrow>
   list_all (\<lambda>e. event_code e \<noteq> LV_EVENT_PRESSED \<and> event_code e \<noteq> LV_EVENT_SHORT_CLICKED) es \<Longrightarrow>
   fst (lv_actions es r) = [] \<and> \<not> swipe_tracking (snd (lv_actions es r))"
proof (induction es arbitrary: r)
  case (Cons e es)
  have step: "fst (lv_dispatch e r) = None" "\<not> swipe_tracking (snd (lv_dispatch e r))"
    using Cons.prems
    by (auto simp: lv_dispatch_def gesture_event_def frame_event_def split: lv_event_code.split option.split)
  then show ?case
    using Cons.IH [OF step(2)] Cons.prems by (simp add: split_beta)
qed simp

text \<open>
  C35. A drag is one action. From a press at \<open>p\<close>, through any number of moves, to a release or a
  lost press at \<open>q\<close>, the callbacks raise exactly the action that the displacement from \<open>p\<close> to
  \<open>q\<close> is classified as, whatever the pointer did in between, and none when it is no swipe;
  afterwards further releases and moves raise nothing until the next press.
\<close>

theorem drag_is_one_action:
  assumes "handler_set r" and "release_code c"
    and "list_all (\<lambda>e. event_code e \<noteq> LV_EVENT_PRESSED \<and> event_code e \<noteq> LV_EVENT_SHORT_CLICKED) later"
  shows "fst (lv_actions (pointer_event LV_EVENT_PRESSED p # map (pointer_event LV_EVENT_PRESSING) ps @
      pointer_event c q # later) r) =
    (let swipe = watch_swipe_classify (point_x q - point_x p) (point_y q - point_y p) in
     if swipe = WATCH_SWIPE_NONE then [] else [swipe_action swipe])"
proof -
  define r1 where "r1 = r\<lparr>swipe_start := p, swipe_last := p, swipe_tracking := True\<rparr>"
  have press: "lv_dispatch (pointer_event LV_EVENT_PRESSED p) r = (None, r1)"
    by (simp add: lv_dispatch_def gesture_event_def pointer_event_def r1_def)
  obtain l where moves: "lv_actions (map (pointer_event LV_EVENT_PRESSING) ps) r1 = ([], r1\<lparr>swipe_last := l\<rparr>)"
    using lv_actions_moves [of r1 ps] by (auto simp: r1_def)
  define r2 where "r2 = r1\<lparr>swipe_last := l\<rparr>"
  define r3 where "r3 = r2\<lparr>swipe_last := q, swipe_tracking := False\<rparr>"
  let ?swipe = "watch_swipe_classify (point_x q - point_x p) (point_y q - point_y p)"
  have release: "lv_dispatch (pointer_event c q) r2 =
      (if ?swipe = WATCH_SWIPE_NONE then None else Some (swipe_action ?swipe), r3)"
    using assms(1,2)
    by (auto simp: lv_dispatch_def gesture_event_def pointer_event_def release_code_def Let_def
        r1_def r2_def r3_def)
  have "fst (lv_actions later r3) = []"
    using idle_silent [of r3 later] assms(3) by (simp add: r3_def)
  then show ?thesis
    by (simp add: press moves [folded r2_def] release lv_actions_append split_beta Let_def)
qed

theorem drag_is_one_action_witness:
  "fst (lv_actions
     [pointer_event LV_EVENT_PRESSED \<lparr>point_x = 300, point_y = 200\<rparr>,
      pointer_event LV_EVENT_PRESSING \<lparr>point_x = 400, point_y = 10\<rparr>,
      pointer_event LV_EVENT_RELEASED \<lparr>point_x = 200, point_y = 210\<rparr>,
      pointer_event LV_EVENT_PRESS_LOST \<lparr>point_x = 0, point_y = 210\<rparr>] (renderer_init True zero_renderer))
   = [RENDERER_ACTION_NEXT]"
proof -
  let ?later = "[pointer_event LV_EVENT_PRESS_LOST \<lparr>point_x = 0, point_y = 210\<rparr>]"
  have "handler_set (renderer_init True zero_renderer)" "release_code LV_EVENT_RELEASED"
    by (simp_all add: renderer_init_def release_code_def)
  moreover have "list_all (\<lambda>e. event_code e \<noteq> LV_EVENT_PRESSED \<and> event_code e \<noteq> LV_EVENT_SHORT_CLICKED) ?later"
    by (simp add: pointer_event_def)
  moreover have "watch_swipe_classify (200 - 300) (210 - 200) = WATCH_SWIPE_NEXT" by code_simp
  ultimately show ?thesis
    using drag_is_one_action [where ps = "[\<lparr>point_x = 400, point_y = 10\<rparr>]" and later = ?later
        and c = LV_EVENT_RELEASED and p = "\<lparr>point_x = 300, point_y = 200\<rparr>"
        and q = "\<lparr>point_x = 200, point_y = 210\<rparr>" and r = "renderer_init True zero_renderer"]
    by (simp add: swipe_action_def del: lv_actions.simps)
qed

end
