(* ===== verification/Renderer_Scene.thy ===== *)
theory Renderer_Scene
  imports Renderer Watch_Cache
begin

text \<open>
  What the drawings of the renderer amount to: rendering and refreshing draw the same scene, every call
  refers to an object of that scene, and the texts on the screen are given by a table over the
  watch's state in which no number or string is truncated by its buffer.
\<close>

section \<open>Scenes\<close>

text \<open>
  A drawing only appends calls, and what it appends depends on the canvas by the numbering of
  its objects alone.
\<close>

definition appending :: "'a drawing \<Rightarrow> bool" where
  "appending m \<longleftrightarrow>
     (\<forall>v. run_state m v =
       (case run_state m (v\<lparr>calls := []\<rparr>) of (a, v') \<Rightarrow> (a, v'\<lparr>calls := calls v @ calls v'\<rparr>)))"

lemma appendingD:
  "appending m \<Longrightarrow> run_state m (v\<lparr>calls := []\<rparr>) = (a, v') \<Longrightarrow>
   run_state m v = (a, v'\<lparr>calls := calls v @ calls v'\<rparr>)"
proof -
  assume "appending m" and run: "run_state m (v\<lparr>calls := []\<rparr>) = (a, v')"
  from this(1) have "run_state m v =
      (case run_state m (v\<lparr>calls := []\<rparr>) of (a, v') \<Rightarrow> (a, v'\<lparr>calls := calls v @ calls v'\<rparr>))"
    unfolding appending_def by (rule spec)
  then show ?thesis by (simp only: run prod.case)
qed

lemma appending_basic:
  "appending (lv c)" "appending (lv_obj_create p)" "appending (lv_label_create o')"
  "appending (State_Monad.return x)"
  by (simp_all add: appending_def lv_def lv_obj_create_def lv_label_create_def)

lemma appending_bind:
  assumes m: "appending m" and f: "\<And>a. appending (f a)"
  shows "appending (State_Monad.bind m f)"
  unfolding appending_def
proof
  fix v :: canvas
  obtain a v1 where 1: "run_state m (v\<lparr>calls := []\<rparr>) = (a, v1)" by fastforce
  obtain b v2 where 2: "run_state (f a) (v1\<lparr>calls := []\<rparr>) = (b, v2)" by fastforce
  have "run_state (f a) v1 = (b, v2\<lparr>calls := calls v1 @ calls v2\<rparr>)"
    by (rule appendingD [OF f 2])
  moreover have "run_state (f a) (v1\<lparr>calls := calls v @ calls v1\<rparr>) =
      (b, v2\<lparr>calls := (calls v @ calls v1) @ calls v2\<rparr>)"
    using appendingD [OF f, of a "v1\<lparr>calls := calls v @ calls v1\<rparr>"] 2 by simp
  ultimately show "run_state (State_Monad.bind m f) v =
      (case run_state (State_Monad.bind m f) (v\<lparr>calls := []\<rparr>) of
         (a, v') \<Rightarrow> (a, v'\<lparr>calls := calls v @ calls v'\<rparr>))"
    using 1 appendingD [OF m 1] by simp
qed

text \<open>The scene both operations draw, before they load it.\<close>

definition scene :: "watch_state \<Rightarrow> lv_obj drawing" where
  "scene s = do {
     screen \<leftarrow> lv_obj_create None;
     face \<leftarrow> face_create screen;
     (if active_screen s = WATCH_SCREEN_HOME then render_home face s else render_app face s);
     gesture_layer_create face;
     State_Monad.return screen
   }"

lemma renderer_scene:
  "renderer_render s backwards = State_Monad.bind (scene s) (\<lambda>screen. watch_animation_load screen backwards)"
  "renderer_refresh s =
     State_Monad.bind (scene s) (\<lambda>screen. lv (Screen_load_anim screen LV_SCR_LOAD_ANIM_NONE 0 0 True))"
  by (simp_all add: renderer_render_def renderer_refresh_def scene_def)

lemma appending_if: "appending m \<Longrightarrow> appending m' \<Longrightarrow> appending (if b then m else m')"
  by simp

lemmas appending_intros = appending_bind appending_if appending_basic

lemma appending_parts:
  "appending (label parent t font color)" "appending (face_create o1)"
  "appending (gesture_layer_create o1)"
  unfolding label_def face_create_def gesture_layer_create_def by (intro appending_intros)+

lemma appending_page_indicator: "appending (page_indicator face screen)"
  unfolding page_indicator_def Let_def by (intro appending_intros appending_parts)

lemma appending_bodies: "appending (render_home face s)" "appending (render_app face s)"
  unfolding render_home_def render_app_def Let_def
  by (intro appending_intros appending_parts appending_page_indicator)+

lemma appending_scene: "appending (scene s)"
  unfolding scene_def by (intro appending_intros appending_parts appending_bodies)

section \<open>Scope of the objects\<close>

text \<open>
  \<open>scoped lo n cs n'\<close>: the calls create the objects \<open>n, n + 1, ..., n' - 1\<close> in this order, and name
  only objects from \<open>lo\<close> on that exist at that point.
\<close>

fun call_target :: "lv_call \<Rightarrow> lv_obj" where
  "call_target (Obj_create k p) = k"
| "call_target (Label_create k p) = k"
| "call_target (Label_set_text k t) = k"
| "call_target (Label_set_long_mode_wrap k) = k"
| "call_target (Set_size k x y) = k"
| "call_target (Set_width k x) = k"
| "call_target (Obj_center k) = k"
| "call_target (Obj_align k a x y) = k"
| "call_target (Set_scrollable k b) = k"
| "call_target (Set_clickable k b) = k"
| "call_target (Remove_style_all k) = k"
| "call_target (Style_text_font k f) = k"
| "call_target (Style_text_color k c) = k"
| "call_target (Style_text_align_center k) = k"
| "call_target (Style_bg_color k c) = k"
| "call_target (Style_bg_opa k p) = k"
| "call_target (Style_pad_all k x) = k"
| "call_target (Style_radius k r) = k"
| "call_target (Style_border_width k x) = k"
| "call_target (Style_border_color k c) = k"
| "call_target (Style_shadow_width k x) = k"
| "call_target (Add_event_cb k f c) = k"
| "call_target (Screen_load_anim k a t d b) = k"

fun call_parent :: "lv_call \<Rightarrow> lv_obj option" where
  "call_parent (Obj_create k p) = p"
| "call_parent (Label_create k p) = Some p"
| "call_parent _ = None"

fun creates :: "lv_call \<Rightarrow> bool" where
  "creates (Obj_create k p) = True"
| "creates (Label_create k p) = True"
| "creates _ = False"

fun scoped :: "nat \<Rightarrow> nat \<Rightarrow> lv_call list \<Rightarrow> nat option" where
  "scoped lo n [] = Some n"
| "scoped lo n (c # cs) =
     (if (case call_parent c of None \<Rightarrow> True | Some p \<Rightarrow> lo \<le> p \<and> p < n) then
        (if creates c then (if call_target c = n then scoped lo (Suc n) cs else None)
         else if lo \<le> call_target c \<and> call_target c < n then scoped lo n cs else None)
      else None)"

lemma scoped_append:
  "scoped lo n (cs @ cs') = (case scoped lo n cs of None \<Rightarrow> None | Some n' \<Rightarrow> scoped lo n' cs')"
  by (induction cs arbitrary: n) auto

lemma scoped_grows: "scoped lo n cs = Some n' \<Longrightarrow> n \<le> n'"
  by (induction cs arbitrary: n) (auto split: if_splits option.splits dest: Suc_leD)

text \<open>A drawing within the objects from \<open>lo\<close> on, with a result of its scope.\<close>

definition draws :: "nat \<Rightarrow> nat \<Rightarrow> 'a drawing \<Rightarrow> (nat \<Rightarrow> 'a \<Rightarrow> bool) \<Rightarrow> bool" where
  "draws lo n m Q \<longleftrightarrow>
     (case run_state m \<lparr>next_obj = n, calls = []\<rparr> of (a, v) \<Rightarrow>
        scoped lo n (calls v) = Some (next_obj v) \<and> n \<le> next_obj v \<and> Q (next_obj v) a)"

lemma draws_bind:
  assumes "draws lo n m Q" and f: "\<And>n' a. n \<le> n' \<Longrightarrow> Q n' a \<Longrightarrow> draws lo n' (f a) R" and "\<And>a. appending (f a)"
  shows "draws lo n (State_Monad.bind m f) R"
proof -
  obtain a v1 where 1: "run_state m \<lparr>next_obj = n, calls = []\<rparr> = (a, v1)" by fastforce
  obtain b v2 where 2: "run_state (f a) (v1\<lparr>calls := []\<rparr>) = (b, v2)" by fastforce
  have v1: "v1\<lparr>calls := []\<rparr> = \<lparr>next_obj = next_obj v1, calls = []\<rparr>" by simp
  have m: "scoped lo n (calls v1) = Some (next_obj v1)" "n \<le> next_obj v1" "Q (next_obj v1) a"
    using assms(1) 1 by (simp_all add: draws_def)
  have "draws lo (next_obj v1) (f a) R" by (rule f) (use m in simp_all)
  then have "scoped lo (next_obj v1) (calls v2) = Some (next_obj v2)" "next_obj v1 \<le> next_obj v2"
      "R (next_obj v2) b"
    using 2 by (simp_all add: draws_def v1)
  moreover have "run_state (State_Monad.bind m f) \<lparr>next_obj = n, calls = []\<rparr> =
      (b, v2\<lparr>calls := calls v1 @ calls v2\<rparr>)"
    using 1 appendingD [OF assms(3) 2] by simp
  ultimately show ?thesis using m by (simp add: draws_def scoped_append)
qed

lemma run_lv [simp]:
  "run_state (lv c) v = ((), v\<lparr>calls := calls v @ [c]\<rparr>)"
  by (simp add: lv_def)

lemma run_label [simp]:
  "run_state (label parent t font color) \<lparr>next_obj = n, calls = cs\<rparr> =
     (n, \<lparr>next_obj = Suc n,
          calls = cs @ [Label_create n parent, Label_set_text n t, Style_text_font n font,
                        Style_text_color n color]\<rparr>)"
  by (simp add: label_def lv_label_create_def)

lemma run_create [simp]:
  "run_state (lv_obj_create parent) \<lparr>next_obj = n, calls = cs\<rparr> =
     (n, \<lparr>next_obj = Suc n, calls = cs @ [Obj_create n parent]\<rparr>)"
  by (simp add: lv_obj_create_def)

lemma draws_face:
  "lo \<le> screen \<Longrightarrow> screen < n \<Longrightarrow> draws lo n (face_create screen) (\<lambda>n' face. face = n \<and> n' = Suc n)"
  by (simp add: draws_def face_create_def)

lemma draws_gesture_layer:
  "lo \<le> face \<Longrightarrow> face < n \<Longrightarrow> draws lo n (gesture_layer_create face) (\<lambda>_ _. True)"
  by (simp add: draws_def gesture_layer_create_def)

lemma draws_page_indicator:
  "lo \<le> face \<Longrightarrow> face < n \<Longrightarrow> draws lo n (page_indicator face x) (\<lambda>_ _. True)"
  by (simp add: draws_def page_indicator_def)

lemma draws_home: "lo \<le> face \<Longrightarrow> face < n \<Longrightarrow> draws lo n (render_home face s) (\<lambda>_ _. True)"
  by (simp add: draws_def render_home_def page_indicator_def)

lemma draws_app: "lo \<le> face \<Longrightarrow> face < n \<Longrightarrow> draws lo n (render_app face s) (\<lambda>_ _. True)"
  by (simp add: draws_def render_app_def page_indicator_def)

lemma draws_scene: "draws n n (scene s) (\<lambda>_ screen. screen = n)"
  unfolding scene_def
proof (rule draws_bind)
  show "draws n n (lv_obj_create None) (\<lambda>n' screen. screen = n \<and> n' = Suc n)"
    by (simp add: draws_def)
next
  fix n1 screen assume 1: "n \<le> n1" "screen = n \<and> n1 = Suc n"
  show "draws n n1 (State_Monad.bind (face_create screen) (\<lambda>face.
      State_Monad.bind (if active_screen s = WATCH_SCREEN_HOME then render_home face s else render_app face s)
        (\<lambda>_. State_Monad.bind (gesture_layer_create face) (\<lambda>_. State_Monad.return screen))))
      (\<lambda>_ screen. screen = n)"
  proof (rule draws_bind [OF draws_face])
    fix n2 face assume 2: "n1 \<le> n2" "face = n1 \<and> n2 = Suc n1"
    show "draws n n2 (State_Monad.bind (if active_screen s = WATCH_SCREEN_HOME then render_home face s else render_app face s)
        (\<lambda>_. State_Monad.bind (gesture_layer_create face) (\<lambda>_. State_Monad.return screen))) (\<lambda>_ screen. screen = n)"
    proof (rule draws_bind)
      show "draws n n2 (if active_screen s = WATCH_SCREEN_HOME then render_home face s else render_app face s) (\<lambda>_ _. True)"
        using 1 2 by (simp add: draws_home draws_app)
    next
      fix n3 assume "n2 \<le> n3"
      with 1 2 show "draws n n3 (State_Monad.bind (gesture_layer_create face) (\<lambda>_. State_Monad.return screen)) (\<lambda>_ screen. screen = n)"
        by (intro draws_bind [OF draws_gesture_layer]) (simp_all add: draws_def appending_basic)
    qed (intro appending_intros appending_parts)
  next
    show "n \<le> screen" "screen < n1" using 1 by simp_all
  qed (intro appending_intros appending_parts appending_bodies)
qed (intro appending_intros appending_parts appending_bodies)

text \<open>
  C37. Rendering and refreshing show the same thing: from any canvas both append the same calls,
  which create a new screen first and then name only objects that exist and belong to this
  scene, and differ only in the last call, which slides the new screen in over 260 ms in the
  direction of the navigation, or replaces the old one at once.
\<close>

theorem render_refresh_same_scene:
  "\<exists>drawn n'.
     scoped (next_obj v) (next_obj v) drawn = Some n' \<and> next_obj v < n' \<and>
     drawn ! 0 = Obj_create (next_obj v) None \<and>
     snd (run_state (renderer_render s backwards) v) =
       \<lparr>next_obj = n', calls = calls v @ drawn @
          [Screen_load_anim (next_obj v)
             (if backwards then LV_SCR_LOAD_ANIM_MOVE_RIGHT else LV_SCR_LOAD_ANIM_MOVE_LEFT) 260 0 True]\<rparr> \<and>
     snd (run_state (renderer_refresh s) v) =
       \<lparr>next_obj = n', calls = calls v @ drawn @
          [Screen_load_anim (next_obj v) LV_SCR_LOAD_ANIM_NONE 0 0 True]\<rparr>"
proof -
  let ?n = "next_obj v"
  have v: "v\<lparr>calls := []\<rparr> = \<lparr>next_obj = ?n, calls = []\<rparr>" by simp
  obtain screen v1 where run: "run_state (scene s) \<lparr>next_obj = ?n, calls = []\<rparr> = (screen, v1)" by fastforce
  have d: "scoped ?n ?n (calls v1) = Some (next_obj v1)" "screen = ?n"
    using draws_scene [of ?n s] run by (simp_all add: draws_def)
  have first: "\<exists>rest. calls v1 = Obj_create ?n None # rest"
  proof -
    obtain u v2 where rest: "run_state (State_Monad.bind (face_create ?n) (\<lambda>face.
        State_Monad.bind (if active_screen s = WATCH_SCREEN_HOME then render_home face s else render_app face s)
        (\<lambda>_. State_Monad.bind (gesture_layer_create face) (\<lambda>_. State_Monad.return ?n))))
        \<lparr>next_obj = Suc ?n, calls = []\<rparr> = (u, v2)" (is "run_state ?m _ = _") by fastforce
    have "appending ?m" by (intro appending_intros appending_parts appending_bodies)
    from appendingD [OF this, of "\<lparr>next_obj = Suc ?n, calls = [Obj_create ?n None]\<rparr>"] rest
    have "run_state ?m \<lparr>next_obj = Suc ?n, calls = [Obj_create ?n None]\<rparr> =
        (u, v2\<lparr>calls := [Obj_create ?n None] @ calls v2\<rparr>)" by simp
    with run have "v1 = v2\<lparr>calls := [Obj_create ?n None] @ calls v2\<rparr>"
      by (simp add: scene_def del: run_state_bind) (simp add: State_Monad.run_state_bind [of "lv_obj_create None"] del: run_state_bind)
    then show ?thesis by simp
  qed
  have "run_state (scene s) v = (?n, v1\<lparr>calls := calls v @ calls v1\<rparr>)"
    using appendingD [OF appending_scene [of s], of v] run d(2) by (simp add: v)
  moreover have "?n < next_obj v1"
  proof -
    obtain rest where "scoped ?n (Suc ?n) rest = Some (next_obj v1)" using d(1) first by auto
    then show ?thesis by (rule scoped_grows [THEN Suc_le_lessD])
  qed
  ultimately show ?thesis
    using d first
    by (intro exI [of _ "calls v1"] exI [of _ "next_obj v1"])
       (auto simp: renderer_scene watch_animation_load_def)
qed

section \<open>The texts on the screen\<close>

fun shown_texts :: "lv_call list \<Rightarrow> string list" where
  "shown_texts [] = []"
| "shown_texts (c # cs) = (case c of Label_set_text k t \<Rightarrow> t # shown_texts cs | _ \<Rightarrow> shown_texts cs)"

lemma shown_texts_append [simp]: "shown_texts (cs @ cs') = shown_texts cs @ shown_texts cs'"
  by (induction cs) (auto split: lv_call.split)

text \<open>The two-digit position \<open>i / n\<close>.\<close>

definition position_text :: "nat \<Rightarrow> nat \<Rightarrow> string" where
  "position_text i n = [CHR ''0'', digit_char i] @ '' / '' @ [CHR ''0'', digit_char n]"

text \<open>
  The table of the texts, without any buffer and without the functions of the renderer. On every
  screen but the home screen: the status of the connection, the name of the app, a
  headline, the position in a list of several notifications, a detail, and the page.
\<close>

definition status_text :: "watch_state \<Rightarrow> string" where
  "status_text s =
     (case connection s of
        WATCH_CONNECTION_ONLINE \<Rightarrow> ''HOST SYNCED''
      | _ \<Rightarrow> if host_data_stale s then ''CACHE / STALE'' else ''OFFLINE READY'')"

fun notification_texts :: "watch_notification_list \<Rightarrow> string list" where
  "notification_texts list =
     (case (unat (stored_count list), entries list ! unat (active_index list)) of
        (0, _) \<Rightarrow> [''You'' @ [CHR 0x27] @ ''re all caught up'', ''Cached notifications remain available.'']
      | (Suc 0, n) \<Rightarrow> [cstr (title n), cstr (body n)]
      | (count, n) \<Rightarrow> [cstr (title n), position_text (Suc (unat (active_index list))) count, cstr (body n)])"

definition music_texts :: "watch_state \<Rightarrow> string list" where
  "music_texts s =
     [cstr (music_title s),
      (if cstr (music_action_feedback s) \<noteq> [] then cstr (music_action_feedback s)
       else if music_playing s then ''PLAYING / TAP TO PAUSE''
       else ''PAUSED / TAP TO PLAY'')]"

fun app_texts :: "watch_screen \<Rightarrow> watch_state \<Rightarrow> string list" where
  "app_texts WATCH_SCREEN_NOTIFICATIONS s = ''Notifications'' # notification_texts (notifications s)"
| "app_texts WATCH_SCREEN_MUSIC s = ''Music'' # music_texts s"
| "app_texts WATCH_SCREEN_ASSISTANT s =
     [''Assistant'', ''Assistant ready'', ''Connect the host for AI requests.'']"
| "app_texts WATCH_SCREEN_SETTINGS s =
     [''Settings'', ''Local settings'', ''Display and device controls stay local.'']"
| "app_texts _ s = []"

definition screen_texts :: "watch_state \<Rightarrow> string list" where
  "screen_texts s =
     (if active_screen s = WATCH_SCREEN_HOME then
        [time_text s, print_dec (unat (battery_percent s)) @ ''%'', date_text s,
         print_int (sint (temperature_c s)) @ [CHR 0xC2, CHR 0xB0, CHR ''C''], cstr (weather_condition s)] @
        (if host_data_stale s then [''CACHED''] else []) @
        [print_dec (unat (steps s)) @ '' STEPS'']
      else status_text s # app_texts (active_screen s) s) @
     [position_text (screen_num (active_screen s) + 1) 5]"

text \<open>What the renderer selects is what the table says.\<close>

lemma app_selects:
  assumes "wf_state s" and "active_screen s \<noteq> WATCH_SCREEN_HOME"
  shows "[app_title s, app_headline_text s] @
      (if active_screen s = WATCH_SCREEN_NOTIFICATIONS \<and> 1 < unat (stored_count (notifications s))
       then [position_text (Suc (unat (active_index (notifications s)))) (unat (stored_count (notifications s)))]
       else []) @ [app_detail s] = app_texts (active_screen s) s"
proof -
  have "music_action_feedback s ! 0 = NUL \<longleftrightarrow> cstr (music_action_feedback s) = []"
    using assms(1) by (cases "music_action_feedback s") (auto simp: wf_state_def cstring_array_def)
  moreover have "stored_count (notifications s) > 0 \<longleftrightarrow> unat (stored_count (notifications s)) \<noteq> 0"
    by (simp add: word_less_nat_alt)
  moreover have "active_screen s \<in> {WATCH_SCREEN_NOTIFICATIONS, WATCH_SCREEN_MUSIC, WATCH_SCREEN_ASSISTANT, WATCH_SCREEN_SETTINGS}"
    using assms by (cases "active_screen s") (auto simp: wf_state_def valid_screen_num)
  ultimately show ?thesis
    by (auto simp: app_title_def app_headline_text_def app_detail_def shown_notification_def music_texts_def
        app_registry_find_def apps_def split: nat.split)
qed

lemma status_selects: "connection_status s = status_text s"
  by (cases "connection s") (simp_all add: connection_status_def status_text_def)

lemma print_position_small: "i < 10 \<Longrightarrow> n < 10 \<Longrightarrow> print_position i n = position_text i n"
  by (simp add: print_position_def position_text_def print_dec.simps pad_zeros_def)

lemma snprintf_fits: "length t < capacity \<Longrightarrow> snprintf_text capacity t = t"
  by (simp add: snprintf_text_def)

lemma length_position_text [simp]: "length (position_text i n) = 7"
  by (simp add: position_text_def)

lemma page_texts:
  assumes "valid_screen x"
  shows "snprintf_text 16 (print_position (Suc (screen_num x)) (screen_num WATCH_SCREEN_COUNT)) =
    position_text (Suc (screen_num x)) 5"
  using assms by (simp add: print_position_small snprintf_fits valid_screen_num)

lemma home_buffers:
  "snprintf_text 8 (print_dec (unat (b :: u8)) @ ''%'') = print_dec (unat b) @ ''%''"
  "snprintf_text 12 (print_int (sint (t :: i16)) @ degrees) = print_int (sint t) @ degrees"
  "snprintf_text 24 (print_dec (unat (n :: u32)) @ '' STEPS'') = print_dec (unat n) @ '' STEPS''"
  "cstring_array 32 c \<Longrightarrow> snprintf_text 48 (cstr c) = cstr c"
  using length_dec_u8 [of b] length_int_i16 [of t] length_dec_u32 [of n]
  by (auto intro!: snprintf_fits simp: degrees_def dest: cstring_array_fits)

lemma scene_texts:
  assumes "wf_state s"
  shows "shown_texts (calls (snd (run_state (scene s) \<lparr>next_obj = n, calls = []\<rparr>))) = screen_texts s"
proof -
  let ?l = "notifications s"
  from assms have wf: "valid_screen (active_screen s)" "cstring_array 32 (weather_condition s)"
      "wf_notification_list ?l"
    by (simp_all add: wf_state_def)
  have position: "snprintf_text 16 (print_position (Suc (unat (active_index ?l))) (unat (stored_count ?l))) =
      position_text (Suc (unat (active_index ?l))) (unat (stored_count ?l))"
    if "1 < unat (stored_count ?l)"
    using wf(3) that
    by (intro trans [OF snprintf_fits print_position_small])
       (auto simp: wf_notification_list_def cursor_ok_unat WATCH_NOTIFICATION_CAPACITY_def print_position_small)
  have several: "1 < stored_count ?l \<longleftrightarrow> 1 < unat (stored_count ?l)" by (simp add: word_less_nat_alt)
  show ?thesis
  proof (cases "active_screen s = WATCH_SCREEN_HOME")
    case True
    then show ?thesis
      using wf
      by (simp add: scene_def face_create_def render_home_def gesture_layer_create_def page_indicator_def
          screen_texts_def page_texts home_buffers [unfolded degrees_def] degrees_def
          del: screen_num.simps)
  next
    case False
    then show ?thesis
      using wf position
      by (simp add: scene_def face_create_def render_app_def gesture_layer_create_def page_indicator_def
          screen_texts_def page_texts status_selects several
          flip: app_selects [OF assms False] del: screen_num.simps)
  qed
qed

lemma run_scene:
  obtains v1 where
    "run_state (scene s) \<lparr>next_obj = next_obj v, calls = []\<rparr> = (next_obj v, v1)"
    "run_state (scene s) v = (next_obj v, v1\<lparr>calls := calls v @ calls v1\<rparr>)"
proof -
  obtain screen v1 where run: "run_state (scene s) \<lparr>next_obj = next_obj v, calls = []\<rparr> = (screen, v1)"
    by fastforce
  moreover have "screen = next_obj v"
    using draws_scene [of "next_obj v" s] run by (simp add: draws_def)
  moreover have "v\<lparr>calls := []\<rparr> = \<lparr>next_obj = next_obj v, calls = []\<rparr>" by simp
  ultimately show thesis
    using that appendingD [OF appending_scene [of s], of v] by metis
qed

text \<open>
  C36. The watch shows its state: in every well-formed state, rendering and refreshing put exactly
  the texts of the table on the screen, in order. The table is written without the renderer: the
  notification shown is the one under the cursor, the music screen says PLAYING exactly when
  music plays and no feedback is shown, and the status says whether the data are the host's,
  cached or local. No buffer truncates a battery level, a temperature down to -32768, a
  step count, a condition or a position, and the cursor is inside the array.
\<close>

theorem screen_shows_state:
  assumes "wf_state s"
  shows "(\<exists>new. calls (snd (run_state (renderer_render s backwards) v)) = calls v @ new \<and>
      shown_texts new = screen_texts s) \<and>
    (\<exists>new. calls (snd (run_state (renderer_refresh s) v)) = calls v @ new \<and>
      shown_texts new = screen_texts s) \<and>
    (stored_count (notifications s) > 0 \<longrightarrow>
       unat (active_index (notifications s)) < length (entries (notifications s)))"
proof -
  obtain v1 where 1: "run_state (scene s) \<lparr>next_obj = next_obj v, calls = []\<rparr> = (next_obj v, v1)"
      "run_state (scene s) v = (next_obj v, v1\<lparr>calls := calls v @ calls v1\<rparr>)"
    by (rule run_scene)
  have texts: "shown_texts (calls v1) = screen_texts s"
    using scene_texts [OF assms, of "next_obj v"] 1(1) by simp
  have "stored_count (notifications s) > 0 \<Longrightarrow>
      unat (active_index (notifications s)) < length (entries (notifications s))"
    using assms by (auto simp: wf_state_def wf_notification_list_def cursor_ok_unat word_less_nat_alt)
  then show ?thesis
    using 1(2) texts by (simp add: renderer_scene watch_animation_load_def)
qed

theorem screen_shows_state_witness:
  "\<exists>new. calls (snd (run_state (renderer_refresh watch_state_init) \<lparr>next_obj = 0, calls = []\<rparr>)) = new \<and>
     shown_texts new = [''21:45'', ''72%'', ''SEP 24'', ''28'' @ degrees, ''Clear'', ''7421 STEPS'', ''01 / 05'']"
proof -
  have "screen_texts watch_state_init =
      [''21:45'', ''72%'', ''SEP 24'', ''28'' @ degrees, ''Clear'', ''7421 STEPS'', ''01 / 05'']"
  proof -
    have "print_dec 72 = map digit_char [7, 2]" "print_dec 7421 = map digit_char [7, 4, 2, 1]"
        "print_dec 28 = map digit_char [2, 8]" "position_text 1 5 = ''01 / 05''"
      by (simp_all add: print_dec.simps) code_simp
    moreover have "map digit_char [7, 2] = ''72''" "map digit_char [7, 4, 2, 1] = ''7421''"
        "map digit_char [2, 8] = ''28''"
      by code_simp+
    ultimately show ?thesis
      by (simp only: screen_texts_def watch_state_init_def watch_state_reset_host_owned_def Let_def)
         (simp add: print_int_def degrees_def)
  qed
  then show ?thesis
    using screen_shows_state [OF wf_state_init, where v = "\<lparr>next_obj = 0, calls = []\<rparr>"] by auto
qed

end
