(* ===== verification/Watch_Runtime.thy ===== *)
theory Watch_Runtime
  imports Transport_Link Renderer_Scene Navigation Watch_Sync Watch_Actions
begin

text \<open>
  The runtime (\<open>watch/src/runtime/watch_runtime.c\<close> and \<open>main.c\<close>), which composes all other parts: its
  static variables, the handlers it gives to the transport and the renderer, the start-up and one
  round of the main loop. The operations act on the world of the transport, whose application
  state is the runtime's record; the canvas and the disk are part of it.
\<close>

section \<open>State\<close>

record runtime =
  rt_state :: watch_state
  rt_navigation :: watch_navigation
  rt_sync :: watch_sync
  rt_cache :: watch_cache_record
  rt_actions :: watch_actions
  runtime_ready :: bool
  performance_sample_pending :: bool
  performance_sample_deadline :: i64
  performance_start_frames :: u32
  rt_renderer :: renderer
  rt_input :: watch_input
  rt_canvas :: canvas
  disk :: files

type_synonym 'e watch = "('e, runtime) world"

definition update_app :: "(runtime \<Rightarrow> runtime) \<Rightarrow> 'e watch \<Rightarrow> 'e watch" where
  "update_app f w = w\<lparr>app := f (app w)\<rparr>"

text \<open>The calls of the renderer, the cache storage and the clock, on the world.\<close>

definition refresh_screen :: "'e watch \<Rightarrow> 'e watch" where
  "refresh_screen = update_app (\<lambda>r. r\<lparr>rt_canvas := snd (run_state (renderer_refresh (rt_state r)) (rt_canvas r))\<rparr>)"

definition refresh_if_ready :: "'e watch \<Rightarrow> 'e watch" where
  "refresh_if_ready w = (if runtime_ready (app w) then refresh_screen w else w)"

definition cache_now :: "'e os \<Rightarrow> 'e watch \<Rightarrow> u64 \<times> 'e watch" where
  "cache_now os w =
     (case wall_clock os (env w) of (now, e) \<Rightarrow>
        (let w = w\<lparr>env := e\<rparr> in
         if now \<noteq> - 1 then (watch_cache_storage_now_ms now 0, w)
         else case uptime os w of (up, w) \<Rightarrow> (watch_cache_storage_now_ms now up, w)))"

definition save_cache :: "'e os \<Rightarrow> 'e watch \<Rightarrow> 'e watch" where
  "save_cache os w =
     (case save_answers os (env w) of (faults, e) \<Rightarrow>
        update_app (\<lambda>r. r\<lparr>disk := last (snd
            (watch_cache_storage_save (cache_variable os) faults (rt_cache r) (disk r)))\<rparr>)
          (w\<lparr>env := e\<rparr>))"

text \<open>\<open>watch_cache_capture_sync\<close> with the current revision, then the save.\<close>

definition capture_sync_at :: "'e os \<Rightarrow> u64 \<Rightarrow> 'e watch \<Rightarrow> 'e watch" where
  "capture_sync_at os now w =
     save_cache os (update_app (\<lambda>r. r\<lparr>rt_cache := watch_cache_capture_sync (rt_cache r) (rt_state r)
       (watch_sync_revision (rt_sync r)) now\<rparr>) w)"

section \<open>Handlers\<close>

definition render_current :: "'e os \<Rightarrow> bool \<Rightarrow> 'e watch \<Rightarrow> 'e watch" where
  "render_current os backwards w =
     (case uptime os w of (started_at, w) \<Rightarrow>
        (let w = update_app (\<lambda>r. r\<lparr>rt_state :=
                   watch_state_set_screen (rt_state r) (navigation_current (rt_navigation r))\<rparr>) w;
             w = update_app (\<lambda>r. r\<lparr>rt_canvas :=
                   snd (run_state (renderer_render (rt_state r) backwards) (rt_canvas r))\<rparr>) w
         in case uptime os w of (finished_at, w) \<Rightarrow>
           (let w = update_app (\<lambda>r. r\<lparr>performance_start_frames := renderer_frame_count (rt_renderer r)\<rparr>) w
            in case uptime os w of (now, w) \<Rightarrow>
              update_app (\<lambda>r. r\<lparr>performance_sample_deadline := now + 300, performance_sample_pending := True\<rparr>) w)))"

definition handle_protocol_message ::
    "json_lib \<Rightarrow> 'e os \<Rightarrow> 'e watch message_handler" where
  "handle_protocol_message J os message w =
     (if msg_type message = WATCH_MESSAGE_COMMAND_RESULT then
        (case watch_actions_handle_result (rt_actions (app w)) (rt_state (app w)) message of
           (handled, a, s) \<Rightarrow>
             (let w = update_app (\<lambda>r. r\<lparr>rt_actions := a, rt_state := s\<rparr>) w in
              if handled then
                (case cache_now os w of (now, w) \<Rightarrow> (Inr (), refresh_if_ready (capture_sync_at os now w)))
              else (Inr (), w)))
      else
        (case watch_sync_handle J (rt_sync (app w)) (rt_state (app w)) message of
           (result, sync, s) \<Rightarrow>
             (let w = update_app (\<lambda>r. r\<lparr>rt_sync := sync, rt_state := s\<rparr>) w in
              if result = WATCH_SYNC_ERROR then (Inl EINVAL, w)
              else if result = WATCH_SYNC_NEEDS_SNAPSHOT then
                transport_request_sync os (watch_sync_revision (rt_sync (app w))) w
              else if result = WATCH_SYNC_CHANGED then
                (case cache_now os w of (now, w) \<Rightarrow>
                   (let w = update_app (\<lambda>r. r\<lparr>rt_state := (rt_state r)
                              \<lparr>connection := WATCH_CONNECTION_ONLINE, host_data_stale := False,
                               host_data_updated_at_ms := now\<rparr>\<rparr>) w
                    in (Inr (), refresh_if_ready (capture_sync_at os now w))))
              else (Inr (), w))))"

definition handle_transport_event ::
    "'e os \<Rightarrow> transport_event \<Rightarrow> 'e watch \<Rightarrow> 'e watch" where
  "handle_transport_event os event w =
     refresh_if_ready
       (if event = TRANSPORT_EVENT_CONNECTED then
          update_app (\<lambda>r. r\<lparr>rt_state := (rt_state r)\<lparr>connection := WATCH_CONNECTION_CONNECTING\<rparr>,
                            rt_sync := watch_sync_connected (rt_sync r)\<rparr>) w
        else
          (let w = (if pending (rt_actions (app w)) then
                      (case watch_actions_fail (rt_actions (app w)) (rt_state (app w)) ''HOST OFFLINE'' of
                         (a, s) \<Rightarrow> update_app (\<lambda>r. r\<lparr>rt_actions := a, rt_state := s\<rparr>) w)
                    else w);
               w = update_app (\<lambda>r. r\<lparr>rt_state := (rt_state r)\<lparr>connection := WATCH_CONNECTION_OFFLINE\<rparr>,
                                     rt_sync := watch_sync_disconnected (rt_sync r)\<rparr>) w
           in if version (weather_meta (rt_cache (app w))) > 0 then
                (let w = update_app (\<lambda>r. r\<lparr>rt_state := (rt_state r)\<lparr>host_data_stale := True\<rparr>\<rparr>) w
                 in case cache_now os w of (now, w) \<Rightarrow>
                      save_cache os (update_app (\<lambda>r. r\<lparr>rt_cache := watch_cache_mark_stale (rt_cache r) now\<rparr>) w))
              else w))"

text \<open>A tap on the music screen: the part of \<open>handle_action\<close> that never reaches the common end.\<close>

definition activate_music :: "'e os \<Rightarrow> 'e watch \<Rightarrow> 'e watch" where
  "activate_music os w =
     (if active_screen (rt_state (app w)) = WATCH_SCREEN_MUSIC then
        (case cache_now os w of (now, w) \<Rightarrow>
           (case watch_actions_begin_music (rt_actions (app w)) (rt_state (app w)) now of
              (begun, a, s) \<Rightarrow>
                (let w = update_app (\<lambda>r. r\<lparr>rt_actions := a, rt_state := s\<rparr>) w in
                 if begun then
                   (let w = refresh_screen w in
                    case transport_send_music_action os (music_playing (rt_state (app w))) w of
                      (sent, w) \<Rightarrow>
                        (let w = (case sent of
                               Inr n \<Rightarrow> update_app (\<lambda>r. r\<lparr>rt_actions :=
                                          watch_actions_bind_message (rt_actions r) n\<rparr>) w
                             | Inl _ \<Rightarrow>
                                 (case watch_actions_fail (rt_actions (app w)) (rt_state (app w)) ''HOST OFFLINE'' of
                                    (a, s) \<Rightarrow> refresh_screen
                                      (update_app (\<lambda>r. r\<lparr>rt_actions := a, rt_state := s\<rparr>) w)))
                         in case cache_now os w of (now, w) \<Rightarrow> capture_sync_at os now w))
                 else w)))
      else w)"

text \<open>The switch of \<open>handle_action\<close>: whether something changed, and the direction.\<close>

definition navigate :: "renderer_action \<Rightarrow> 'e watch \<Rightarrow> bool \<times> bool \<times> 'e watch" where
  "navigate action w =
     (case action of
        RENDERER_ACTION_NEXT \<Rightarrow>
          (case navigation_next (rt_navigation (app w)) of
             (changed, n) \<Rightarrow> (changed, False, update_app (\<lambda>r. r\<lparr>rt_navigation := n\<rparr>) w))
      | RENDERER_ACTION_PREVIOUS \<Rightarrow>
          (case navigation_previous (rt_navigation (app w)) of
             (changed, n) \<Rightarrow> (changed, True, update_app (\<lambda>r. r\<lparr>rt_navigation := n\<rparr>) w))
      | RENDERER_ACTION_NEXT_ITEM \<Rightarrow>
          if active_screen (rt_state (app w)) = WATCH_SCREEN_NOTIFICATIONS then
            (case watch_state_notification_next (rt_state (app w)) of
               (changed, s) \<Rightarrow> (changed, False, update_app (\<lambda>r. r\<lparr>rt_state := s\<rparr>) w))
          else (False, False, w)
      | RENDERER_ACTION_PREVIOUS_ITEM \<Rightarrow>
          if active_screen (rt_state (app w)) = WATCH_SCREEN_NOTIFICATIONS then
            (case watch_state_notification_previous (rt_state (app w)) of
               (changed, s) \<Rightarrow> (changed, False, update_app (\<lambda>r. r\<lparr>rt_state := s\<rparr>) w))
          else (False, False, w)
      | RENDERER_ACTION_ACTIVATE \<Rightarrow> (False, False, w))"

definition handle_action :: "'e os \<Rightarrow> renderer_action \<Rightarrow> 'e watch \<Rightarrow> 'e watch" where
  "handle_action os action w =
     (if action = RENDERER_ACTION_ACTIVATE then activate_music os w
      else case navigate action w of
        (changed, backwards, w) \<Rightarrow>
          if changed then
            (let w = (if action = RENDERER_ACTION_NEXT_ITEM \<or> action = RENDERER_ACTION_PREVIOUS_ITEM
                      then refresh_screen w else render_current os backwards w)
             in case cache_now os w of (now, w) \<Rightarrow>
                  save_cache os (update_app (\<lambda>r. r\<lparr>rt_cache :=
                    watch_cache_capture_application (rt_cache r) (rt_state r) now\<rparr>) w))
          else w)"

definition runtime_handlers :: "json_lib \<Rightarrow> 'e os \<Rightarrow> ('e, runtime) handlers" where
  "runtime_handlers J os =
     \<lparr>runtime_message_handler = Some (handle_protocol_message J os),
      runtime_event_handler = Some (handle_transport_event os)\<rparr>"

section \<open>The main loop\<close>

text \<open>\<open>lv_timer_handler\<close> makes its callbacks one after the other.\<close>

fun dispatch_events :: "'e os \<Rightarrow> lv_event list \<Rightarrow> 'e watch \<Rightarrow> 'e watch" where
  "dispatch_events os [] w = w"
| "dispatch_events os (event # events) w =
     (case lv_dispatch event (rt_renderer (app w)) of
        (action, renderer) \<Rightarrow>
          (let w = update_app (\<lambda>r. r\<lparr>rt_renderer := renderer\<rparr>) w in
           dispatch_events os events
             (case action of None \<Rightarrow> w | Some a \<Rightarrow> handle_action os a w)))"

definition timer_handler :: "'e os \<Rightarrow> 'e watch \<Rightarrow> 'e watch" where
  "timer_handler os w =
     (case lv_timer_handler os (env w) of (events, e) \<Rightarrow> dispatch_events os events (w\<lparr>env := e\<rparr>))"

text \<open>
  The static variables at power-on; the disk is what the last run left. The watch's state and the
  cache record are initialised before anything reads them, so their first value does not matter.
\<close>

definition power_on :: "'e \<Rightarrow> files \<Rightarrow> 'e watch" where
  "power_on e fs =
     \<lparr>trans = transport_start, env = e,
      app = \<lparr>rt_state = watch_state_init, rt_navigation = zero_navigation, rt_sync = watch_sync_init,
             rt_cache = zero_cache, rt_actions = watch_actions_init, runtime_ready = False,
             performance_sample_pending = False, performance_sample_deadline = 0,
             performance_start_frames = 0, rt_renderer = zero_renderer, rt_input = zero_input,
             rt_canvas = \<lparr>next_obj = 0, calls = []\<rparr>, disk = fs\<rparr>\<rparr>"

text \<open>The initialisation of the components and the restoration of the cache.\<close>

definition restore_cache :: "'e os \<Rightarrow> 'e watch \<Rightarrow> 'e watch" where
  "restore_cache os w =
     (case load_answers os (env w) of (faults, e) \<Rightarrow>
        (let w = w\<lparr>env := e\<rparr> in
         case watch_cache_storage_load (cache_variable os) faults (disk (app w)) of
           Inr cache \<Rightarrow>
             (case watch_cache_restore cache (rt_state (app w)) of
                (restored, s) \<Rightarrow>
                  (let w = update_app (\<lambda>r. r\<lparr>rt_cache := cache, rt_state := s\<rparr>) w in
                   if restored then
                     update_app (\<lambda>r. r\<lparr>rt_navigation :=
                       navigation_replace (rt_navigation r) (active_screen (rt_state r))\<rparr>) w
                   else w))
         | Inl code \<Rightarrow>
             if code = EBADMSG then update_app (\<lambda>r. r\<lparr>rt_cache := watch_cache_init\<rparr>) w else w))"

definition watch_runtime_start :: "json_lib \<Rightarrow> 'e os \<Rightarrow> 'e watch \<Rightarrow> errno + 'e watch" where
  "watch_runtime_start J os w =
     (if watch_platform_init \<noteq> 0 then Inl ENODEV
      else if \<not> device_is_ready os then Inl ENODEV
      else
        let w = update_app (\<lambda>r. r\<lparr>rt_state := watch_state_init, rt_sync := watch_sync_init,
                  rt_actions := watch_actions_init,
                  rt_navigation := navigation_init (rt_navigation r),
                  rt_cache := watch_cache_init\<rparr>) w;
            w = restore_cache os w;
            w = update_app (\<lambda>r. r\<lparr>rt_renderer := renderer_init (lv_display_get_default os) (rt_renderer r)\<rparr>) w;
            w = transport_init os (runtime_handlers J os) w;
            input_result = watch_input_init (hardware_button_gpio os) (activate_button_gpio os);
            w = render_current os False w;
            w = update_app (\<lambda>r. r\<lparr>runtime_ready := True\<rparr>) w;
            w = timer_handler os w
        in case display_blanking_off os (env w) of (_, e) \<Rightarrow> Inr (w\<lparr>env := e\<rparr>))"

text \<open>
  One round of \<open>while (true)\<close>. The interrupts of the buttons since the last poll are served
  before the poll; nothing else reads their flags.
\<close>

definition serve_buttons :: "'e os \<Rightarrow> 'e watch \<Rightarrow> 'e watch" where
  "serve_buttons os w =
     (case button_edges os (env w) of ((button, activate), e) \<Rightarrow>
        update_app (\<lambda>r. r\<lparr>rt_input :=
            (if activate then activate_isr else id) ((if button then button_isr else id) (rt_input r))\<rparr>)
          (w\<lparr>env := e\<rparr>))"

definition poll_input :: "'e os \<Rightarrow> 'e watch \<Rightarrow> 'e watch" where
  "poll_input os w =
     (case watch_input_poll (rt_input (app w)) of (input, i) \<Rightarrow>
        (let w = update_app (\<lambda>r. r\<lparr>rt_input := i\<rparr>) w in
         if input = WATCH_INPUT_HARDWARE_BUTTON then handle_action os RENDERER_ACTION_NEXT w
         else if input = WATCH_INPUT_ACTIVATE then handle_action os RENDERER_ACTION_ACTIVATE w
         else w))"

definition poll_actions :: "'e os \<Rightarrow> 'e watch \<Rightarrow> 'e watch" where
  "poll_actions os w =
     (case cache_now os w of (now, w) \<Rightarrow>
        (case watch_actions_poll_timeout (rt_actions (app w)) (rt_state (app w)) now of
           (timed_out, a, s) \<Rightarrow>
             (let w = update_app (\<lambda>r. r\<lparr>rt_actions := a, rt_state := s\<rparr>) w in
              if timed_out then refresh_screen w else w)))"

definition sample_performance :: "'e os \<Rightarrow> 'e watch \<Rightarrow> 'e watch" where
  "sample_performance os w =
     (if performance_sample_pending (app w) then
        (case uptime os w of (now, w) \<Rightarrow>
           if sint now \<ge> sint (performance_sample_deadline (app w))
           then update_app (\<lambda>r. r\<lparr>performance_sample_pending := False\<rparr>) w else w)
      else w)"

definition loop_round :: "json_lib \<Rightarrow> 'e os \<Rightarrow> 'e watch \<Rightarrow> 'e watch" where
  "loop_round J os w =
     (let w = transport_poll J os (runtime_handlers J os) w;
          w = serve_buttons os w;
          w = poll_input os w;
          w = poll_actions os w;
          w = timer_handler os w;
          w = sample_performance os w
      in w\<lparr>env := k_sleep os (env w)\<rparr>)"

text \<open>The loop never ends; \<open>watch_runtime_run J os n\<close> is the state after \<open>n\<close> rounds.\<close>

definition watch_runtime_run :: "json_lib \<Rightarrow> 'e os \<Rightarrow> nat \<Rightarrow> 'e watch \<Rightarrow> errno + 'e watch" where
  "watch_runtime_run J os rounds w =
     (case watch_runtime_start J os w of
        Inl code \<Rightarrow> Inl code
      | Inr w \<Rightarrow> Inr ((loop_round J os ^^ rounds) w))"

definition main_program :: "json_lib \<Rightarrow> 'e os \<Rightarrow> nat \<Rightarrow> 'e watch \<Rightarrow> errno + 'e watch" where
  "main_program J os rounds w = watch_runtime_run J os rounds w"

end
