(* ===== verification/Runtime_Invariant.thy ===== *)
theory Runtime_Invariant
  imports Watch_Runtime
begin

text \<open>
  The invariant of the whole watch. Every operation of the runtime keeps its data well-formed, the
  connection shown in step with the socket, the screen in step with the navigation, no action
  and no synchronisation open while offline, and a disk from which only well-formed records can
  be loaded, at any moment of any save. The runtime's handlers keep the promises the transport
  expects, so the invariant holds after any number of rounds of the main loop.
\<close>

section \<open>The disk\<close>

definition cache_shape :: "watch_cache_record \<Rightarrow> bool" where
  "cache_shape r \<longleftrightarrow>
     wf_layout r \<and> cstring_array 32 (cached_weather_condition r) \<and>
     cstring_array 64 (cached_music_title r) \<and> list_all wf_notification (entries (cached_notifications r))"

lemma wf_cache_shape: "wf_cache r \<longleftrightarrow> cache_shape r \<and> watch_cache_valid r"
  by (auto simp: wf_cache_def cache_shape_def)

lemma cache_shape_init [simp]: "cache_shape watch_cache_init"
  using wf_cache_init by (simp add: wf_cache_shape)

lemma cache_shape_seal [simp]: "cache_shape (watch_cache_seal r) = cache_shape r"
  by (simp add: cache_shape_def)

lemma cache_shape_capture_sync: "cache_shape r \<Longrightarrow> wf_state s \<Longrightarrow> cache_shape (watch_cache_capture_sync r s n now)"
  unfolding watch_cache_capture_sync_def cache_shape_seal
  by (simp add: cache_shape_def wf_layout_def wf_state_def
      sized_notification_list_wf wf_notification_list_def cstring_copy_text)

lemma cache_shape_capture_application:
  "cache_shape r \<Longrightarrow> wf_state s \<Longrightarrow> cache_shape (watch_cache_capture_application r s now)"
  unfolding watch_cache_capture_application_def cache_shape_seal
  by (simp add: cache_shape_def wf_layout_def wf_state_def
      sized_notification_list_def valid_screen_small)

lemma cache_shape_mark_stale: "cache_shape r \<Longrightarrow> cache_shape (watch_cache_mark_stale r now)"
  by (simp add: watch_cache_mark_stale_def) (simp add: cache_shape_def wf_layout_def)

text \<open>Whatever can be loaded is well-formed.\<close>

definition disk_ok :: "string option \<Rightarrow> files \<Rightarrow> bool" where
  "disk_ok variable fs \<longleftrightarrow>
     (\<forall>faults r. watch_cache_storage_load variable faults fs = Inr r \<longrightarrow> wf_cache r)"

lemma load_of_image:
  assumes "fs path = Some (cache_image r)" "wf_layout r"
    and "watch_cache_storage_load (Some path) faults fs = Inr r'"
  shows "r' = r \<and> watch_cache_valid r"
proof -
  have "length (cache_image r) = RECORD_SIZE" by (rule length_cache_image) fact
  with assms show ?thesis
    by (auto simp: watch_cache_storage_load_def cache_path_def Let_def image_cache_image
        split: if_splits)
qed

lemma disk_ok_save:
  assumes "disk_ok variable fs" "cache_shape r"
    and "watch_cache_storage_save variable faults r fs = (result, trace)"
  shows "list_all (disk_ok variable) trace"
proof (cases "cache_path variable")
  case None
  with assms show ?thesis by (auto simp: watch_cache_storage_save_def)
next
  case (Some path)
  then have v: "variable = Some path" "path \<noteq> []"
    by (auto simp: cache_path_def split: option.splits if_splits)
  have "disk_ok variable fs'" if "fs' \<in> set trace" for fs'
  proof -
    have "fs' path = fs path \<or> fs' path = Some (cache_image r)"
      using save_cases [of path faults r fs result trace] assms(3) v that by auto
    then show ?thesis
    proof
      assume "fs' path = fs path"
      then show ?thesis using assms(1) load_cong [of fs' path fs] by (simp add: disk_ok_def v)
    next
      assume "fs' path = Some (cache_image r)"
      then show ?thesis
        using load_of_image assms(2) unfolding disk_ok_def v wf_cache_shape
        by (metis cache_shape_def)
    qed
  qed
  then show ?thesis by (simp add: list_all_iff)
qed

section \<open>The runtime's record\<close>

definition rt_ok :: "string option \<Rightarrow> bool \<Rightarrow> runtime \<Rightarrow> bool" where
  "rt_ok variable online r \<longleftrightarrow>
     actions_ok (rt_actions r, rt_state r) \<and> wf_navigation (rt_navigation r) \<and>
     wf_sync (rt_sync r) \<and> cache_shape (rt_cache r) \<and> disk_ok variable (disk r) \<and>
     active_screen (rt_state r) = navigation_current (rt_navigation r) \<and>
     (connection (rt_state r) = WATCH_CONNECTION_OFFLINE \<longleftrightarrow> \<not> online) \<and>
     (\<not> online \<longrightarrow> \<not> syncing (rt_sync r) \<and> \<not> pending (rt_actions r))"

lemma rt_ok_irrelevant [simp]:
  "rt_ok v b (r\<lparr>rt_canvas := c\<rparr>) = rt_ok v b r"
  "rt_ok v b (r\<lparr>rt_renderer := rr\<rparr>) = rt_ok v b r"
  "rt_ok v b (r\<lparr>rt_input := i\<rparr>) = rt_ok v b r"
  "rt_ok v b (r\<lparr>runtime_ready := p\<rparr>) = rt_ok v b r"
  "rt_ok v b (r\<lparr>performance_sample_pending := p\<rparr>) = rt_ok v b r"
  "rt_ok v b (r\<lparr>performance_start_frames := n\<rparr>) = rt_ok v b r"
  "rt_ok v b (r\<lparr>performance_sample_deadline := d, performance_sample_pending := p\<rparr>) = rt_ok v b r"
  by (simp_all add: rt_ok_def)

lemma update_app_keeps [simp]:
  "trans (update_app f w) = trans w" "env (update_app f w) = env w" "app (update_app f w) = f (app w)"
  by (simp_all add: update_app_def)

lemma refresh_keeps [simp]:
  "trans (refresh_screen w) = trans w" "trans (refresh_if_ready w) = trans w"
  "rt_ok v b (app (refresh_screen w)) = rt_ok v b (app w)"
  "rt_ok v b (app (refresh_if_ready w)) = rt_ok v b (app w)"
  by (simp_all add: refresh_screen_def refresh_if_ready_def)

lemma cache_now_keeps [simp]:
  "trans (snd (cache_now os w)) = trans w" "app (snd (cache_now os w)) = app w"
  using uptime_keeps by (simp_all add: cache_now_def Let_def split_beta)

lemma save_cache_trans [simp]: "trans (save_cache os w) = trans w"
  by (simp add: save_cache_def split_beta)

lemma rt_ok_save:
  assumes "rt_ok (cache_variable os) b (app w)"
  shows "rt_ok (cache_variable os) b (app (save_cache os w))"
proof -
  obtain faults e where f: "save_answers os (env w) = (faults, e)" by fastforce
  obtain result trace where s: "watch_cache_storage_save (cache_variable os) faults (rt_cache (app w))
      (disk (app w)) = (result, trace)" by fastforce
  have "list_all (disk_ok (cache_variable os)) trace"
    using disk_ok_save [OF _ _ s] assms by (simp add: rt_ok_def)
  moreover have "trace \<noteq> []" using save_trace [OF s] .
  ultimately have "disk_ok (cache_variable os) (last trace)" by (simp add: list_all_iff)
  with assms show ?thesis by (simp add: save_cache_def f s rt_ok_def)
qed

lemma actions_ok_wf: "rt_ok v b r \<Longrightarrow> wf_state (rt_state r)"
  by (simp add: rt_ok_def actions_ok_def)

lemma rt_ok_cache: "rt_ok v b r \<Longrightarrow> cache_shape c \<Longrightarrow> rt_ok v b (r\<lparr>rt_cache := c\<rparr>)"
  by (simp add: rt_ok_def)

lemma capture_sync_at_keeps [simp]: "trans (capture_sync_at os now w) = trans w"
  by (simp add: capture_sync_at_def)

lemma rt_ok_capture_sync:
  assumes "rt_ok (cache_variable os) b (app w)"
  shows "rt_ok (cache_variable os) b (app (capture_sync_at os now w))"
  unfolding capture_sync_at_def using assms actions_ok_wf [OF assms]
  by (intro rt_ok_save) (simp add: rt_ok_cache cache_shape_capture_sync rt_ok_def)

section \<open>Messages and events\<close>

text \<open>What the message handlers of the components leave alone.\<close>

lemma apply_change_owned: "watch_owned (apply_change c s) = watch_owned s"
  by (cases c) simp_all

lemma apply_run_owned: "watch_owned (apply_run changes m n s) = watch_owned s"
proof -
  have "watch_owned (fold (\<lambda>q. apply_change (the (changes q))) qs s) = watch_owned s" for qs
    by (induction qs arbitrary: s) (simp_all add: apply_change_owned)
  then show ?thesis by (simp add: apply_run_def)
qed

lemma handle_owned:
  assumes wf: "wf_sync sync" and h: "watch_sync_handle J sync s msg = (result, sync', s')"
  shows "watch_owned s' = watch_owned s"
  using h
proof (cases rule: handle_cases)
  case (snapshot candidate n)
  then show ?thesis
    using handle_snapshot(1) [OF wf snapshot h] watch_owned_snapshot
    by (auto simp: snapshot_spec_def sync_view_def apply_run_owned)
next
  case (mutation m)
  then show ?thesis
    using handle_mutation(1) [OF wf mutation(2,3) h]
    by (auto simp: mutation_spec_def sync_view_def apply_change_owned split: if_splits)
qed simp_all

lemma parse_weather_pending:
  "parse_weather J tok s = Inr s' \<Longrightarrow> music_action_pending s' = music_action_pending s"
  by (auto simp: parse_weather_def split: if_splits sum.splits)

lemma parse_music_pending:
  "parse_music J tok s = Inr s' \<Longrightarrow> music_action_pending s' = music_action_pending s"
  by (auto simp: parse_music_def split: if_splits sum.splits)

lemma snapshot_loop_pending:
  "parse_snapshot_loop J obj s = Inr s' \<Longrightarrow> music_action_pending s' = music_action_pending s"
proof (induction obj arbitrary: s)
  case (Obj_Pair k v rest)
  from Obj_Pair.prems show ?case
    by (auto dest!: Obj_Pair.IH parse_weather_pending parse_music_pending split: if_splits sum.splits)
qed simp_all

lemma snapshot_pending: "parse_snapshot J m s = Inr (s', r) \<Longrightarrow> \<not> music_action_pending s'"
  by (auto simp: parse_snapshot_def watch_state_reset_host_owned_def dest: snapshot_loop_pending
      split: if_splits sum.splits option.splits)

lemma apply_change_pending: "music_action_pending (apply_change c s) = music_action_pending s"
  by (cases c) simp_all

lemma apply_run_pending: "music_action_pending (apply_run changes m n s) = music_action_pending s"
proof -
  have "music_action_pending (fold (\<lambda>q. apply_change (the (changes q))) qs s) = music_action_pending s" for qs
    by (induction qs arbitrary: s) (simp_all add: apply_change_pending)
  then show ?thesis by (simp add: apply_run_def)
qed

lemma handle_pending:
  assumes wf: "wf_sync sync" and h: "watch_sync_handle J sync s msg = (result, sync', s')"
  shows "music_action_pending s' \<longrightarrow> music_action_pending s"
  using h
proof (cases rule: handle_cases)
  case (snapshot candidate n)
  then show ?thesis
    using handle_snapshot(1) [OF wf snapshot h] snapshot_pending
    by (auto simp: snapshot_spec_def sync_view_def apply_run_pending)
next
  case (mutation m)
  then show ?thesis
    using handle_mutation(1) [OF wf mutation(2,3) h]
    by (auto simp: mutation_spec_def sync_view_def apply_change_pending split: if_splits)
qed simp_all

lemma actions_keep_screen:
  "active_screen (snd (watch_actions_fail a s t)) = active_screen s"
  "connection (snd (watch_actions_fail a s t)) = connection s"
  "active_screen (snd (snd (watch_actions_handle_result a s m))) = active_screen s"
  "connection (snd (snd (watch_actions_handle_result a s m))) = connection s"
  "active_screen (snd (snd (watch_actions_begin_music a s now))) = active_screen s"
  "connection (snd (snd (watch_actions_begin_music a s now))) = connection s"
  "active_screen (snd (snd (watch_actions_poll_timeout a s now))) = active_screen s"
  "connection (snd (snd (watch_actions_poll_timeout a s now))) = connection s"
  by (simp_all add: watch_actions_fail_def watch_actions_handle_result_def set_feedback_def
      watch_actions_begin_music_def watch_actions_poll_timeout_def)

text \<open>The parts of the invariant a message can touch.\<close>

lemma rt_ok_replace:
  assumes "rt_ok v b r" "actions_ok (a, s)" "active_screen s = active_screen (rt_state r)"
    and "connection s = connection (rt_state r)" "\<not> b \<Longrightarrow> \<not> pending a"
  shows "rt_ok v b (r\<lparr>rt_actions := a, rt_state := s\<rparr>)"
  using assms by (simp add: rt_ok_def)

lemma rt_ok_actions:
  assumes "rt_ok v b r"
  shows "actions_ok (rt_actions r, rt_state r)" "\<not> b \<Longrightarrow> \<not> pending (rt_actions r)"
  using assms by (simp_all add: rt_ok_def)

lemma rt_ok_result:
  assumes "rt_ok v b r" "watch_actions_handle_result (rt_actions r) (rt_state r) m = (handled, a, s)"
  shows "rt_ok v b (r\<lparr>rt_actions := a, rt_state := s\<rparr>)"
proof (rule rt_ok_replace)
  show "actions_ok (a, s)"
    using actions_ok_result [OF rt_ok_actions(1) [OF assms(1)], of m] assms(2) by simp
  show "active_screen s = active_screen (rt_state r)" "connection s = connection (rt_state r)"
    using actions_keep_screen(3,4) [of "rt_actions r" "rt_state r" m] assms(2) by simp_all
  show "\<not> b \<Longrightarrow> \<not> pending a"
    using rt_ok_actions(2) [OF assms(1)] assms(2)
    by (auto simp: watch_actions_handle_result_def watch_actions_fail_def split: if_splits)
qed fact

lemma rt_ok_fail:
  assumes "rt_ok v b r" "watch_actions_fail (rt_actions r) (rt_state r) t = (a, s)"
  shows "rt_ok v b (r\<lparr>rt_actions := a, rt_state := s\<rparr>)" "\<not> pending a"
proof -
  show p: "\<not> pending a" using assms(2) by (auto simp: watch_actions_fail_def split: if_splits)
  show "rt_ok v b (r\<lparr>rt_actions := a, rt_state := s\<rparr>)"
    using assms actions_ok_fail [OF rt_ok_actions(1) [OF assms(1)], of t] p
      actions_keep_screen(1,2) [of "rt_actions r" "rt_state r" t]
    by (intro rt_ok_replace) simp_all
qed

lemma rt_ok_sync:
  assumes r: "rt_ok v True r" and h: "watch_sync_handle J (rt_sync r) (rt_state r) m = (result, sync, s)"
  shows "rt_ok v True (r\<lparr>rt_sync := sync, rt_state := s\<rparr>)"
proof -
  from r have wf: "wf_sync (rt_sync r)" "wf_state (rt_state r)"
    by (simp_all add: rt_ok_def actions_ok_def)
  have "wf_sync sync" "wf_state s" by (rule wf_sync_handle [OF wf(1) h], rule wf_state_handle [OF wf h])
  moreover have "music_action_pending s \<longrightarrow> music_action_pending (rt_state r)"
    by (rule handle_pending [OF wf(1) h])
  moreover have "active_screen s = active_screen (rt_state r)" "connection s = connection (rt_state r)"
    using handle_owned [OF wf(1) h] by (simp_all add: watch_owned_def)
  ultimately show ?thesis using r by (auto simp: rt_ok_def actions_ok_def)
qed

lemma wf_state_flags [simp]:
  "wf_state (s\<lparr>connection := c\<rparr>) = wf_state s" "wf_state (s\<lparr>host_data_stale := b\<rparr>) = wf_state s"
  "wf_state (s\<lparr>host_data_updated_at_ms := t\<rparr>) = wf_state s"
  by (simp_all add: wf_state_def)

lemma rt_ok_synchronised:
  "rt_ok v True r \<Longrightarrow> rt_ok v True (r\<lparr>rt_state := (rt_state r)\<lparr>connection := WATCH_CONNECTION_ONLINE,
     host_data_stale := False, host_data_updated_at_ms := now\<rparr>\<rparr>)"
  by (simp add: rt_ok_def actions_ok_def)

lemma message_link_runtime:
  "link (trans (snd (handle_protocol_message J os m w))) = link (trans w)"
  by (simp add: handle_protocol_message_def split_beta Let_def)

lemma rt_ok_message:
  assumes "rt_ok (cache_variable os) True (app w)"
  shows "rt_ok (cache_variable os) True (app (snd (handle_protocol_message J os m w)))"
proof (cases "msg_type m = WATCH_MESSAGE_COMMAND_RESULT")
  case True
  obtain handled a s where h: "watch_actions_handle_result (rt_actions (app w)) (rt_state (app w)) m = (handled, a, s)"
    by (metis prod_cases3)
  have "rt_ok (cache_variable os) True (app (update_app (\<lambda>r. r\<lparr>rt_actions := a, rt_state := s\<rparr>) w))"
    using rt_ok_result [OF assms h] by simp
  with True h show ?thesis
    by (simp add: handle_protocol_message_def Let_def split_beta rt_ok_capture_sync)
next
  case False
  obtain result sync s where h: "watch_sync_handle J (rt_sync (app w)) (rt_state (app w)) m = (result, sync, s)"
    by (metis prod_cases3)
  have ok: "rt_ok (cache_variable os) True (app (update_app (\<lambda>r. r\<lparr>rt_sync := sync, rt_state := s\<rparr>) w))"
    using rt_ok_sync [OF assms h] by simp
  then show ?thesis
    using False h rt_ok_synchronised [OF ok]
    by (simp add: handle_protocol_message_def Let_def split_beta rt_ok_capture_sync)
qed

lemma event_link_runtime:
  "link (trans (handle_transport_event os event w)) = link (trans w)"
  by (simp add: handle_transport_event_def split_beta Let_def)

lemma rt_ok_connected:
  assumes "rt_ok (cache_variable os) False (app w)"
  shows "rt_ok (cache_variable os) True (app (handle_transport_event os TRANSPORT_EVENT_CONNECTED w))"
  using assms
  by (simp add: handle_transport_event_def) (auto simp: rt_ok_def actions_ok_def wf_sync_connected)

lemma rt_ok_offline:
  "rt_ok v b r \<Longrightarrow> \<not> pending (rt_actions r) \<Longrightarrow>
   rt_ok v False (r\<lparr>rt_state := (rt_state r)\<lparr>connection := WATCH_CONNECTION_OFFLINE\<rparr>,
                    rt_sync := watch_sync_disconnected (rt_sync r)\<rparr>)"
  by (simp add: rt_ok_def actions_ok_def wf_sync_disconnected) (simp add: watch_sync_disconnected_def)

lemma rt_ok_stale:
  "rt_ok v b r \<Longrightarrow> rt_ok v b (r\<lparr>rt_state := (rt_state r)\<lparr>host_data_stale := True\<rparr>\<rparr>)"
  by (simp add: rt_ok_def actions_ok_def)

lemma rt_ok_mark_stale:
  "rt_ok v b r \<Longrightarrow> rt_ok v b (r\<lparr>rt_cache := watch_cache_mark_stale (rt_cache r) now\<rparr>)"
  by (rule rt_ok_cache) (auto intro: cache_shape_mark_stale simp: rt_ok_def)

lemma rt_ok_disconnected:
  assumes "rt_ok (cache_variable os) True (app w)"
  shows "rt_ok (cache_variable os) False (app (handle_transport_event os TRANSPORT_EVENT_DISCONNECTED w))"
proof -
  let ?v = "cache_variable os"
  obtain a s where f: "watch_actions_fail (rt_actions (app w)) (rt_state (app w)) ''HOST OFFLINE'' = (a, s)"
    by fastforce
  define w1 where "w1 = (if pending (rt_actions (app w))
    then update_app (\<lambda>r. r\<lparr>rt_actions := a, rt_state := s\<rparr>) w else w)"
  have 1: "rt_ok ?v True (app w1)" "\<not> pending (rt_actions (app w1))"
    using assms rt_ok_fail [OF assms f] by (simp_all add: w1_def)
  define w2 where "w2 = update_app (\<lambda>r. r\<lparr>rt_state := (rt_state r)\<lparr>connection := WATCH_CONNECTION_OFFLINE\<rparr>,
    rt_sync := watch_sync_disconnected (rt_sync r)\<rparr>) w1"
  have 2: "rt_ok ?v False (app w2)" using rt_ok_offline [OF 1] by (simp add: w2_def)
  define w3 where "w3 = update_app (\<lambda>r. r\<lparr>rt_state := (rt_state r)\<lparr>host_data_stale := True\<rparr>\<rparr>) w2"
  have 3: "rt_ok ?v False (app w3)" using rt_ok_stale [OF 2] by (simp add: w3_def)
  have 4: "rt_ok ?v False (app (save_cache os (update_app
      (\<lambda>r. r\<lparr>rt_cache := watch_cache_mark_stale (rt_cache r) now\<rparr>) (snd (cache_now os w3)))))" for now
    using rt_ok_mark_stale [OF 3] by (intro rt_ok_save) simp
  have "handle_transport_event os TRANSPORT_EVENT_DISCONNECTED w = refresh_if_ready
      (if version (weather_meta (rt_cache (app w2))) > 0 then
         (case cache_now os w3 of (now, w) \<Rightarrow> save_cache os (update_app
            (\<lambda>r. r\<lparr>rt_cache := watch_cache_mark_stale (rt_cache r) now\<rparr>) w)) else w2)"
    by (simp add: handle_transport_event_def f w1_def w2_def w3_def Let_def)
  then show ?thesis using 2 4 by (simp add: split_beta)
qed

text \<open>The runtime's handlers keep the promises of the transport's interface.\<close>

interpretation runtime_link: transport_client os "runtime_handlers J os" "rt_ok (cache_variable os)"
  for J :: json_lib and os :: "'e os"
proof
  fix event and w :: "'e watch" and h :: "'e watch message_handler" and m
  let ?hs = "runtime_handlers J os" and ?v = "cache_variable os"
  show "link (trans (raise_event ?hs event w)) = link (trans w)"
    by (simp add: raise_event_def runtime_handlers_def event_link_runtime)
  show "rt_ok ?v False (app w) \<Longrightarrow> rt_ok ?v True (app (raise_event ?hs TRANSPORT_EVENT_CONNECTED w))"
    by (simp add: raise_event_def runtime_handlers_def rt_ok_connected)
  show "rt_ok ?v True (app w) \<Longrightarrow> rt_ok ?v False (app (raise_event ?hs TRANSPORT_EVENT_DISCONNECTED w))"
    by (simp add: raise_event_def runtime_handlers_def rt_ok_disconnected)
  assume "runtime_message_handler ?hs = Some h"
  then have h: "h = handle_protocol_message J os" by (simp add: runtime_handlers_def)
  show "link (trans (snd (h m w))) = link (trans w)" by (simp add: h message_link_runtime)
  show "rt_ok ?v True (app w) \<Longrightarrow> rt_ok ?v True (app (snd (h m w)))" by (simp add: h rt_ok_message)
qed

section \<open>Actions\<close>

text \<open>Actions leave the link alone, so whether the watch is online does not change.\<close>

definition watch_ok :: "'e os \<Rightarrow> 'e watch \<Rightarrow> bool" where
  "watch_ok os w \<longleftrightarrow> rt_ok (cache_variable os) (transport_connected w) (app w)"

lemma online_link: "link (trans w) = link (trans w') \<Longrightarrow> transport_connected w = transport_connected w'"
  by (simp add: transport_connected_def link_def)

lemma render_current_keeps:
  "trans (render_current os b w) = trans w"
  by (simp add: render_current_def split_beta Let_def)

lemma wf_navigation_state: "wf_navigation n \<Longrightarrow> wf_state s \<Longrightarrow> wf_state (watch_state_set_screen s (navigation_current n))"
  by (simp add: wf_state_set_screen valid_screen_current)

text \<open>Rendering brings the screen back in step with the navigation.\<close>

lemma rt_ok_render:
  assumes "rt_ok v b ((app w)\<lparr>rt_navigation := n0\<rparr>)" "wf_navigation (rt_navigation (app w))"
  shows "rt_ok v b (app (render_current os backwards w))"
  using assms wf_navigation_state [OF assms(2), of "rt_state (app w)"]
  by (simp add: render_current_def split_beta Let_def)
     (simp add: rt_ok_def actions_ok_def watch_state_set_screen_def)

lemma send_music_online:
  "transport_send_music_action os p w = (Inr n, w') \<Longrightarrow> transport_connected w"
  by (auto simp: transport_send_music_action_def transport_connected_def split: if_splits)

text \<open>The last step of a tap, after the message was sent or not.\<close>

definition settle_tap ::
    "errno + u32 \<Rightarrow> watch_actions \<Rightarrow> watch_state \<Rightarrow> 'e watch \<Rightarrow> 'e watch" where
  "settle_tap sent a s w =
     (case sent of
        Inr n \<Rightarrow> update_app (\<lambda>r. r\<lparr>rt_actions := watch_actions_bind_message (rt_actions r) n\<rparr>) w
      | Inl _ \<Rightarrow> refresh_screen (update_app (\<lambda>r. r\<lparr>rt_actions := a, rt_state := s\<rparr>) w))"

lemma activate_begun:
  assumes "active_screen (rt_state (app w)) = WATCH_SCREEN_MUSIC" and now: "cache_now os w = (now, w0)"
    and b: "watch_actions_begin_music (rt_actions (app w)) (rt_state (app w)) now = (True, a, s)"
    and sent: "transport_send_music_action os (music_playing s)
      (refresh_screen (update_app (\<lambda>r. r\<lparr>rt_actions := a, rt_state := s\<rparr>) w0)) = (sent, w2)"
    and f: "watch_actions_fail a s ''HOST OFFLINE'' = (a', s')"
  shows "activate_music os w = (case cache_now os (settle_tap sent a' s' w2) of (now, w) \<Rightarrow> capture_sync_at os now w)"
    and "link (trans w2) = link (trans w)"
    and "\<exists>c. app w2 = (app w)\<lparr>rt_actions := a, rt_state := s, rt_canvas := c\<rparr>"
    and "app w2 = app (refresh_screen (update_app (\<lambda>r. r\<lparr>rt_actions := a, rt_state := s\<rparr>) w0))"
proof -
  let ?w1 = "update_app (\<lambda>r. r\<lparr>rt_actions := a, rt_state := s\<rparr>) w0"
  have w0: "trans w0 = trans w" "app w0 = app w" using now cache_now_keeps [of os w] by simp_all
  show l: "link (trans w2) = link (trans w)" and r: "app w2 = app (refresh_screen ?w1)"
    using music_action_keeps [of os "music_playing s" "refresh_screen ?w1"] sent by (simp_all add: w0)
  then show c: "\<exists>c. app w2 = (app w)\<lparr>rt_actions := a, rt_state := s, rt_canvas := c\<rparr>"
    by (simp add: w0 refresh_screen_def) (rule exI, rule refl)
  then obtain c where r2: "app w2 = (app w)\<lparr>rt_actions := a, rt_state := s, rt_canvas := c\<rparr>" by blast
  have "music_playing (rt_state (app (refresh_screen ?w1))) = music_playing s"
    by (simp add: refresh_screen_def)
  with assms(1) r2 show "activate_music os w =
      (case cache_now os (settle_tap sent a' s' w2) of (now, w) \<Rightarrow> capture_sync_at os now w)"
    by (cases sent) (simp_all add: activate_music_def settle_tap_def now b w0 Let_def sent f)
qed

lemma watch_ok_activate:
  assumes "watch_ok os w"
  shows "watch_ok os (activate_music os w) \<and> link (trans (activate_music os w)) = link (trans w)"
proof (cases "active_screen (rt_state (app w)) = WATCH_SCREEN_MUSIC")
  case False
  with assms show ?thesis by (simp add: activate_music_def)
next
  case True
  let ?v = "cache_variable os" and ?b = "transport_connected w"
  have ok: "rt_ok ?v ?b (app w)" using assms by (simp add: watch_ok_def)
  obtain now w0 where now: "cache_now os w = (now, w0)" by fastforce
  then have w0: "trans w0 = trans w" "app w0 = app w" using cache_now_keeps [of os w] by simp_all
  obtain begun a s where b: "watch_actions_begin_music (rt_actions (app w)) (rt_state (app w)) now = (begun, a, s)"
    by (metis prod_cases3)
  have as: "actions_ok (a, s)" "active_screen s = active_screen (rt_state (app w))"
      "connection s = connection (rt_state (app w))"
    using actions_ok_begin [OF rt_ok_actions(1) [OF ok], of now] b
      actions_keep_screen(5,6) [of "rt_actions (app w)" "rt_state (app w)" now] by simp_all
  define w1 where "w1 = update_app (\<lambda>r. r\<lparr>rt_actions := a, rt_state := s\<rparr>) w0"
  show ?thesis
  proof (cases begun)
    case False
    then have "a = rt_actions (app w)" "s = rt_state (app w)"
      using b by (auto simp: watch_actions_begin_music_def split: if_splits)
    with ok have "rt_ok ?v ?b (app w1)" by (simp add: w1_def w0)
    moreover have "activate_music os w = w1"
      using True False by (simp add: activate_music_def now b w0 w1_def)
    ultimately show ?thesis by (simp add: watch_ok_def w1_def w0 transport_connected_def)
  next
    case begun: True
    note b = b [unfolded eqTrueI [OF begun]]
    obtain sent w2 where sent: "transport_send_music_action os (music_playing s) (refresh_screen w1) = (sent, w2)"
      by fastforce
    obtain a' s' where f: "watch_actions_fail a s ''HOST OFFLINE'' = (a', s')" by fastforce
    note tap = activate_begun [OF True now b sent [unfolded w1_def] f]
    obtain c where r2: "app w2 = (app w)\<lparr>rt_actions := a, rt_state := s, rt_canvas := c\<rparr>"
      using tap(3) by blast
    note w2 = tap(2,4) [folded w1_def]
    define w3 where "w3 = settle_tap sent a' s' w2"
    have "rt_ok ?v ?b (app w3) \<and> link (trans w3) = link (trans w)"
    proof (cases sent)
      case (Inr n)
      then have "transport_connected w"
        using send_music_online sent by (force simp: w1_def w0 transport_connected_def)
      moreover have "actions_ok (watch_actions_bind_message a n, s)"
        using as(1) by (simp add: actions_ok_def watch_actions_bind_message_def)
      moreover have "app w3 = (app w)\<lparr>rt_canvas := c,
          rt_actions := watch_actions_bind_message a n, rt_state := s\<rparr>"
        using Inr by (simp add: w3_def settle_tap_def r2)
      ultimately show ?thesis
        using ok Inr as w2 by (simp add: w3_def settle_tap_def) (intro rt_ok_replace, simp_all)
    next
      case (Inl e)
      have p: "\<not> pending a'" using f by (auto simp: watch_actions_fail_def split: if_splits)
      have "actions_ok (a', s')" "active_screen s' = active_screen s" "connection s' = connection s"
        using actions_ok_fail [OF as(1), of "''HOST OFFLINE''"] f
          actions_keep_screen(1,2) [of a s "''HOST OFFLINE''"] by simp_all
      moreover have "app (update_app (\<lambda>r. r\<lparr>rt_actions := a', rt_state := s'\<rparr>) w2) =
          (app w)\<lparr>rt_canvas := c, rt_actions := a', rt_state := s'\<rparr>"
        by (simp add: r2)
      ultimately have "rt_ok ?v ?b (app (update_app (\<lambda>r. r\<lparr>rt_actions := a', rt_state := s'\<rparr>) w2))"
        using ok as p by (simp only:) (intro rt_ok_replace, simp_all)
      with Inl w2 show ?thesis by (simp add: w3_def settle_tap_def)
    qed
    moreover note tap(1) [folded w3_def]
    ultimately show ?thesis
      by (simp add: watch_ok_def split_beta rt_ok_capture_sync online_link [of w3 w] transport_connected_def link_def)
  qed
qed

lemma watch_ok_capture_application:
  assumes "watch_ok os w"
  shows "watch_ok os (save_cache os (update_app (\<lambda>r. r\<lparr>rt_cache :=
    watch_cache_capture_application (rt_cache r) (rt_state r) now\<rparr>) w))"
proof -
  let ?w = "update_app (\<lambda>r. r\<lparr>rt_cache := watch_cache_capture_application (rt_cache r) (rt_state r) now\<rparr>) w"
  have "rt_ok (cache_variable os) (transport_connected w) (app ?w)"
    using assms unfolding watch_ok_def update_app_keeps
    by (intro rt_ok_cache cache_shape_capture_application) (auto simp: rt_ok_def actions_ok_def)
  from rt_ok_save [OF this] show ?thesis by (simp add: watch_ok_def transport_connected_def)
qed

lemma notification_moves_keep:
  "watch_owned (snd (watch_state_notification_next s)) = watch_owned s"
  "watch_owned (snd (watch_state_notification_previous s)) = watch_owned s"
  "music_action_pending (snd (watch_state_notification_next s)) = music_action_pending s"
  "music_action_pending (snd (watch_state_notification_previous s)) = music_action_pending s"
  by (simp_all add: watch_state_notification_next_def watch_state_notification_previous_def Let_def)

lemma rt_ok_browse:
  "rt_ok v b r \<Longrightarrow> wf_state s \<Longrightarrow> watch_owned s = watch_owned (rt_state r) \<Longrightarrow>
   music_action_pending s = music_action_pending (rt_state r) \<Longrightarrow> rt_ok v b (r\<lparr>rt_state := s\<rparr>)"
  by (simp add: rt_ok_def actions_ok_def watch_owned_def)

text \<open>After a move inside the carousel the screen is rendered before anything else happens.\<close>

lemma watch_ok_carousel:
  assumes "watch_ok os w" "wf_navigation n"
  shows "watch_ok os (render_current os backwards (update_app (\<lambda>r. r\<lparr>rt_navigation := n\<rparr>) w))"
proof -
  let ?w = "update_app (\<lambda>r. r\<lparr>rt_navigation := n\<rparr>) w"
  have "(app ?w)\<lparr>rt_navigation := rt_navigation (app w)\<rparr> = app w" by simp
  with assms show ?thesis
    using rt_ok_render [where v = "cache_variable os" and b = "transport_connected w" and w = ?w
        and ?n0.0 = "rt_navigation (app w)" and os = os and backwards = backwards]
    by (simp add: watch_ok_def transport_connected_def render_current_keeps)
qed

lemma watch_ok_browse:
  assumes "watch_ok os w" "wf_state s" "watch_owned s = watch_owned (rt_state (app w))"
    and "music_action_pending s = music_action_pending (rt_state (app w))"
  shows "watch_ok os (refresh_screen (update_app (\<lambda>r. r\<lparr>rt_state := s\<rparr>) w))"
  using assms rt_ok_browse [of "cache_variable os" "transport_connected w" "app w" s]
  by (simp add: watch_ok_def transport_connected_def)

lemma watch_ok_cache_now: "watch_ok os (snd (cache_now os' w)) = watch_ok os w"
  by (simp add: watch_ok_def transport_connected_def)

lemma navigate_moves:
  "fst (navigation_next n)" "fst (navigation_previous n)"
  by (simp_all add: navigation_next_def navigation_previous_def Let_def)

lemma watch_ok_action:
  assumes "watch_ok os w"
  shows "watch_ok os (handle_action os action w) \<and> link (trans (handle_action os action w)) = link (trans w)"
proof -
  from assms have nav: "wf_navigation (rt_navigation (app w))" and st: "wf_state (rt_state (app w))"
    by (simp_all add: watch_ok_def rt_ok_def actions_ok_def)
  show ?thesis
  proof (cases action)
    case RENDERER_ACTION_NEXT
    then show ?thesis
      using watch_ok_carousel [OF assms wf_navigation_next [OF nav]] navigate_moves
      by (simp add: handle_action_def navigate_def split_beta Let_def watch_ok_capture_application
          watch_ok_cache_now render_current_keeps)
  next
    case RENDERER_ACTION_PREVIOUS
    then show ?thesis
      using watch_ok_carousel [OF assms wf_navigation_previous [OF nav]] navigate_moves
      by (simp add: handle_action_def navigate_def split_beta Let_def watch_ok_capture_application
          watch_ok_cache_now render_current_keeps)
  next
    case RENDERER_ACTION_NEXT_ITEM
    then show ?thesis
      using watch_ok_browse [OF assms wf_notification_next [OF st]] assms
      by (simp add: handle_action_def navigate_def split_beta Let_def watch_ok_capture_application
          watch_ok_cache_now notification_moves_keep)
         (simp add: watch_state_notification_next_def Let_def update_app_def)
  next
    case RENDERER_ACTION_PREVIOUS_ITEM
    then show ?thesis
      using watch_ok_browse [OF assms wf_notification_previous [OF st]] assms
      by (simp add: handle_action_def navigate_def split_beta Let_def watch_ok_capture_application
          watch_ok_cache_now notification_moves_keep)
         (simp add: watch_state_notification_previous_def Let_def update_app_def)
  next
    case RENDERER_ACTION_ACTIVATE
    with watch_ok_activate [OF assms] show ?thesis by (simp add: handle_action_def)
  qed
qed

end
