(* ===== verification/Runtime_Loop.thy ===== *)
theory Runtime_Loop
  imports Runtime_Invariant
begin

text \<open>
  The main loop as a machine with the system's invariant: the start-up establishes it from any
  disk this firmware can have left, every round keeps it, and so does every power cycle. Then the
  properties of the composition: back-off after a lost connection, the screen that follows the
  state, the tap while offline.
\<close>

section \<open>The invariant along a round\<close>

definition system_ok :: "'e os \<Rightarrow> string \<Rightarrow> 'e watch \<Rightarrow> bool" where
  "system_ok os session w \<longleftrightarrow> wf_link (trans w) \<and> watch_ok os w \<and> session_id (trans w) = session"

lemma consistent_system [simp]: "runtime_link.consistent os s w = system_ok os s w"
  by (auto simp: runtime_link.consistent_def system_ok_def watch_ok_def)

lemma system_ok_kept:
  "system_ok os s w \<Longrightarrow> watch_ok os w' \<Longrightarrow> link (trans w') = link (trans w) \<Longrightarrow> system_ok os s w'"
  by (simp add: system_ok_def wf_link_def link_def)

lemma system_ok_watch: "system_ok os s w \<Longrightarrow> watch_ok os w"
  by (simp add: system_ok_def)

lemma system_ok_env [simp]: "system_ok os s (w\<lparr>env := e\<rparr>) = system_ok os s w"
  by (simp add: system_ok_def watch_ok_def transport_connected_def)

lemma system_ok_irrelevant:
  assumes "\<And>r. rt_ok (cache_variable os) b (f r) = rt_ok (cache_variable os) b r" "b = transport_connected w"
  shows "system_ok os s (update_app f w) = system_ok os s w"
  using assms by (simp add: system_ok_def watch_ok_def transport_connected_def)

lemma system_action: "system_ok os s w \<Longrightarrow> system_ok os s (handle_action os a w)"
  using watch_ok_action [of os w a] by (auto simp: system_ok_watch intro: system_ok_kept)

lemma system_dispatch: "system_ok os s w \<Longrightarrow> system_ok os s (dispatch_events os events w)"
proof (induction events arbitrary: w)
  case (Cons event events)
  obtain action r where d: "lv_dispatch event (rt_renderer (app w)) = (action, r)" by fastforce
  have "system_ok os s (update_app (\<lambda>x. x\<lparr>rt_renderer := r\<rparr>) w)"
    using Cons.prems by (simp add: system_ok_irrelevant [OF _ refl])
  then show ?case by (simp add: d Let_def Cons.IH system_action split: option.split)
qed simp

lemma system_timer: "system_ok os s w \<Longrightarrow> system_ok os s (timer_handler os w)"
  by (simp add: timer_handler_def system_dispatch split: prod.split)

lemma system_buttons: "system_ok os s w \<Longrightarrow> system_ok os s (serve_buttons os w)"
  by (simp add: serve_buttons_def split_beta system_ok_irrelevant [OF _ refl])

lemma system_input: "system_ok os s w \<Longrightarrow> system_ok os s (poll_input os w)"
  by (simp add: poll_input_def split_beta Let_def system_action system_ok_irrelevant [OF _ refl])

lemma system_sample: "system_ok os s w \<Longrightarrow> system_ok os s (sample_performance os w)"
proof -
  assume s: "system_ok os s w"
  obtain now w1 where u: "uptime os w = (now, w1)" by fastforce
  then have "trans w1 = trans w" "app w1 = app w" using uptime_keeps [of os w] by simp_all
  with s have "system_ok os s w1" by (simp add: system_ok_def watch_ok_def transport_connected_def)
  with s show ?thesis by (simp add: sample_performance_def u system_ok_irrelevant [OF _ refl])
qed

lemma rt_ok_timeout:
  assumes "rt_ok v b r" "watch_actions_poll_timeout (rt_actions r) (rt_state r) now = (out, a, s)"
  shows "rt_ok v b (r\<lparr>rt_actions := a, rt_state := s\<rparr>)"
proof (rule rt_ok_replace)
  show "actions_ok (a, s)"
    using actions_ok_timeout [OF rt_ok_actions(1) [OF assms(1)], of now] assms(2) by simp
  show "active_screen s = active_screen (rt_state r)" "connection s = connection (rt_state r)"
    using actions_keep_screen(7,8) [of "rt_actions r" "rt_state r" now] assms(2) by simp_all
  show "\<not> b \<Longrightarrow> \<not> pending a"
    using rt_ok_actions(2) [OF assms(1)] assms(2)
    by (auto simp: watch_actions_poll_timeout_def split: if_splits)
qed fact

lemma system_timeouts: "system_ok os s w \<Longrightarrow> system_ok os s (poll_actions os w)"
proof -
  assume s: "system_ok os s w"
  obtain now w1 where c: "cache_now os w = (now, w1)" by fastforce
  then have w1: "trans w1 = trans w" "app w1 = app w" using cache_now_keeps [of os w] by simp_all
  obtain out a t where t: "watch_actions_poll_timeout (rt_actions (app w)) (rt_state (app w)) now = (out, a, t)"
    by (metis prod_cases3)
  have "rt_ok (cache_variable os) (transport_connected w) (app w)"
    using s by (simp add: system_ok_def watch_ok_def)
  from rt_ok_timeout [OF this t] s show ?thesis
    by (simp add: poll_actions_def c w1 t Let_def system_ok_def watch_ok_def transport_connected_def)
qed

lemma system_round: "system_ok os s w \<Longrightarrow> system_ok os s (loop_round J os w)"
  using runtime_link.consistent_poll [of os s w J]
  by (simp add: loop_round_def Let_def system_buttons system_input system_timeouts system_timer system_sample)

text \<open>The loop is a machine without inputs; the environment's choices are in the environment.\<close>

interpretation runtime_machine: invariant_machine "\<lambda>w (_ :: unit). loop_round J os w" "\<lambda>_. True" "system_ok os s"
  for J :: json_lib and os :: "'e os" and s :: string
  by unfold_locales (rule system_round)

lemma rounds_machine:
  "(loop_round J os ^^ n) w = run_machine (\<lambda>w (_ :: unit). loop_round J os w) w (replicate n ())"
proof (induction n arbitrary: w)
  case (Suc n)
  have "(loop_round J os ^^ Suc n) w = (loop_round J os ^^ n) (loop_round J os w)"
    by (simp only: funpow_Suc_right o_apply)
  with Suc show ?case by simp
qed simp

lemma system_rounds: "system_ok os s w \<Longrightarrow> system_ok os s ((loop_round J os ^^ n) w)"
  unfolding rounds_machine by (rule runtime_machine.run_inv) (simp_all add: list_all_iff)

section \<open>The start\<close>

lemma navigation_current_replace [simp]:
  "wf_navigation n \<Longrightarrow> navigation_current (navigation_replace n x) = x"
proof -
  assume "wf_navigation n"
  then have "depth n - 1 < length (stack n)" using navigation_depth_bounds [of n] by linarith
  then show ?thesis by (simp add: navigation_current_def navigation_replace_def)
qed

lemma fresh_ok:
  assumes "disk_ok v (disk r)" "rt_navigation r = zero_navigation"
  shows "rt_ok v False (r\<lparr>rt_state := watch_state_init, rt_sync := watch_sync_init,
    rt_actions := watch_actions_init, rt_navigation := navigation_init (rt_navigation r),
    rt_cache := watch_cache_init\<rparr>)"
proof -
  have "connection watch_state_init = WATCH_CONNECTION_OFFLINE" "\<not> music_action_pending watch_state_init"
      "active_screen watch_state_init = navigation_current (navigation_init zero_navigation)"
    by (simp_all add: watch_state_init_def watch_state_reset_host_owned_def Let_def
        navigation_current_def navigation_init_def zero_navigation_def WATCH_NAVIGATION_DEPTH_def)
  moreover have "\<not> syncing watch_sync_init" "\<not> pending watch_actions_init"
    by (simp_all add: watch_sync_init_def watch_actions_init_def)
  ultimately show ?thesis using assms by (simp add: rt_ok_def actions_ok_def)
qed

lemma rt_ok_restored:
  assumes r: "rt_ok v False r" and cache: "wf_cache cache"
    and s: "watch_cache_restore cache (rt_state r) = (restored, s)"
  shows "rt_ok v False (if restored then r\<lparr>rt_cache := cache, rt_state := s,
      rt_navigation := navigation_replace (rt_navigation r) (active_screen s)\<rparr>
    else r\<lparr>rt_cache := cache, rt_state := s\<rparr>)"
proof -
  have wf: "wf_state s" using wf_restore [OF cache actions_ok_wf [OF r]] s by simp
  have "watch_cache_valid cache" using cache by (simp add: wf_cache_shape)
  from restore_fields [OF this, of "rt_state r"] s have
    "connection s = WATCH_CONNECTION_OFFLINE" "music_action_pending s = music_action_pending (rt_state r)"
    "\<not> restored \<longrightarrow> active_screen s = active_screen (rt_state r)"
    by auto
  then show ?thesis
    using r wf cache
    by (auto simp: rt_ok_def actions_ok_def wf_cache_shape wf_state_def intro: wf_navigation_replace)
qed

lemma restore_cache_ok:
  assumes "rt_ok (cache_variable os) False (app w)"
  shows "rt_ok (cache_variable os) False (app (restore_cache os w)) \<and> trans (restore_cache os w) = trans w"
proof -
  obtain faults e where f: "load_answers os (env w) = (faults, e)" by fastforce
  show ?thesis
  proof (cases "watch_cache_storage_load (cache_variable os) faults (disk (app w))")
    case (Inl code)
    with assms show ?thesis by (simp add: restore_cache_def f Let_def rt_ok_cache)
  next
    case (Inr cache)
    then have "wf_cache cache" using assms by (auto simp: rt_ok_def disk_ok_def)
    moreover obtain restored s where s: "watch_cache_restore cache (rt_state (app w)) = (restored, s)"
      by fastforce
    ultimately show ?thesis
      using rt_ok_restored [OF assms _ s] by (simp add: restore_cache_def f Inr Let_def split: if_splits)
  qed
qed

lemma system_start:
  assumes "watch_runtime_start J os (power_on e fs) = Inr w" and "disk_ok (cache_variable os) fs"
  shows "\<exists>s. uuid_v4 s \<and> system_ok os s w"
proof -
  define w1 where "w1 = update_app (\<lambda>r. r\<lparr>rt_state := watch_state_init, rt_sync := watch_sync_init,
      rt_actions := watch_actions_init, rt_navigation := navigation_init (rt_navigation r),
      rt_cache := watch_cache_init\<rparr>) (power_on e fs)"
  have "rt_ok (cache_variable os) False (app w1)"
    using fresh_ok [of "cache_variable os" "app (power_on e fs)"] assms(2)
    by (simp add: w1_def power_on_def)
  from restore_cache_ok [OF this]
  have 2: "rt_ok (cache_variable os) False (app (restore_cache os w1))" "trans (restore_cache os w1) = transport_start"
    by (simp_all add: w1_def power_on_def)
  define w3 where "w3 = update_app (\<lambda>r. r\<lparr>rt_renderer := renderer_init (lv_display_get_default os) (rt_renderer r)\<rparr>)
      (restore_cache os w1)"
  have "trans w3 = transport_start" "rt_ok (cache_variable os) False (app w3)"
    using 2 by (simp_all add: w3_def)
  from runtime_link.consistent_init [OF this] obtain s where
    s: "uuid_v4 s" "system_ok os s (transport_init os (runtime_handlers J os) w3)" by auto
  define w4 where "w4 = transport_init os (runtime_handlers J os) w3"
  have "rt_ok (cache_variable os) (transport_connected w4) ((app w4)\<lparr>rt_navigation := rt_navigation (app w4)\<rparr>)"
      "wf_navigation (rt_navigation (app w4))"
    using s(2) by (simp_all add: system_ok_def watch_ok_def rt_ok_def w4_def)
  from rt_ok_render [OF this, of os False] s(2)
  have "system_ok os s (render_current os False w4)"
    by (simp add: system_ok_def watch_ok_def render_current_keeps transport_connected_def w4_def)
  then have "system_ok os s (timer_handler os (update_app (\<lambda>r. r\<lparr>runtime_ready := True\<rparr>) (render_current os False w4)))"
    by (intro system_timer) (simp add: system_ok_irrelevant [OF _ refl])
  moreover obtain x e' where "w = (timer_handler os (update_app (\<lambda>r. r\<lparr>runtime_ready := True\<rparr>) (render_current os False w4)))\<lparr>env := e'\<rparr>"
    using assms(1)
    by (auto simp: watch_runtime_start_def Let_def w1_def w3_def w4_def split: if_splits prod.splits)
  ultimately show ?thesis using s(1) by auto
qed

lemma system_run:
  assumes "watch_runtime_run J os n (power_on e fs) = Inr w" and "disk_ok (cache_variable os) fs"
  shows "\<exists>s. uuid_v4 s \<and> system_ok os s w"
proof -
  obtain w0 where "watch_runtime_start J os (power_on e fs) = Inr w0" "w = (loop_round J os ^^ n) w0"
    using assms(1) by (auto simp: watch_runtime_run_def split: sum.splits)
  moreover obtain s where "uuid_v4 s" "system_ok os s w0"
    using system_start [OF calculation(1) assms(2)] by blast
  ultimately show ?thesis using system_rounds [of os s w0 n J] by auto
qed

text \<open>
  C1. The watch is in order at any time. From power-on with any disk that holds no malformed but
  valid record, for every behaviour of network, clock, random numbers, fingers, buttons and disk
  and every JSON library, after any number of rounds of the main loop: the watch's state,
  navigation and synchroniser are well-formed, the screen is the top of the navigation, the
  connection shown is OFFLINE exactly when there is no socket, an action or a synchronisation is
  open only on a connection, the receive buffer is within its bound and empty without one, the
  session identifier is a UUID, and the disk can be powered on again.
\<close>

theorem system_invariant:
  assumes "disk_ok (cache_variable os) fs"
    and "watch_runtime_run J os rounds (power_on e fs) = Inr w"
  shows "let r = app w; t = trans w in
    wf_state (rt_state r) \<and> wf_navigation (rt_navigation r) \<and> wf_sync (rt_sync r) \<and>
    active_screen (rt_state r) = navigation_current (rt_navigation r) \<and>
    (connection (rt_state r) = WATCH_CONNECTION_OFFLINE \<longleftrightarrow> socket_fd t < 0) \<and>
    (music_action_pending (rt_state r) \<longrightarrow> pending (rt_actions r)) \<and>
    (socket_fd t < 0 \<longrightarrow> socket_fd t = - 1 \<and> \<not> pending (rt_actions r) \<and> \<not> syncing (rt_sync r) \<and>
       bytes (decoder t) = []) \<and>
    length (bytes (decoder t)) \<le> 16384 \<and> uuid_v4 (session_id t) \<and>
    disk_ok (cache_variable os) (disk r)"
proof -
  obtain s where "uuid_v4 s" "system_ok os s w" using system_run [OF assms(2,1)] by blast
  then show ?thesis
    by (auto simp: system_ok_def watch_ok_def rt_ok_def actions_ok_def transport_connected_def
        wf_link_def wf_decoder_def WATCH_PROTOCOL_MAX_FRAME_SIZE_def Let_def)
qed

theorem system_invariant_witness:
  "\<exists>w. watch_runtime_run ping_lib demo_os 3 (power_on demo_start Map.empty) = Inr w \<and>
     wf_state (rt_state (app w)) \<and> disk_ok (Some ''cache'') (disk (app w))"
proof -
  have v: "cache_variable demo_os = Some ''cache''" by (simp add: demo_os_def)
  have "disk_ok (cache_variable demo_os) Map.empty"
    by (simp add: disk_ok_def v watch_cache_storage_load_def cache_path_def)
  moreover obtain w where "watch_runtime_run ping_lib demo_os 3 (power_on demo_start Map.empty) = Inr w"
  proof -
    have "device_is_ready demo_os" "watch_platform_init = 0"
      by (simp_all add: demo_os_def watch_platform_init_def)
    then show thesis
      using that by (simp add: watch_runtime_run_def watch_runtime_start_def Let_def split_beta)
  qed
  ultimately show ?thesis
    using system_invariant [of demo_os Map.empty ping_lib 3 demo_start] v by (auto simp: Let_def)
qed

section \<open>Losing the connection\<close>

lemma connect_not_due:
  assumes "socket_fd (trans w) < 0" "sint (fst (k_uptime_get os (env w))) < sint (next_connect_at (trans w))"
  shows "connect_if_due os hs w = snd (uptime os w)"
proof -
  obtain now e where "k_uptime_get os (env w) = (now, e)" by fastforce
  with assms show ?thesis by (simp add: connect_if_due_def uptime_def)
qed

text \<open>
  Time on a machine is what its uptime clock reads; Zephyr documents the clock as monotonic. It goes
  forward under each call that a disconnection makes, and stays far from the end of its
  64 bits.
\<close>

definition time_of :: "'e os \<Rightarrow> 'e \<Rightarrow> int" where
  "time_of os e = sint (fst (k_uptime_get os e))"

definition steady_clock :: "'e os \<Rightarrow> bool" where
  "steady_clock os \<longleftrightarrow>
     (\<forall>e. time_of os e < 2 ^ 62) \<and>
     (\<forall>e. time_of os e \<le> time_of os (snd (k_uptime_get os e))) \<and>
     (\<forall>e. time_of os e \<le> time_of os (snd (wall_clock os e))) \<and>
     (\<forall>e. time_of os e \<le> time_of os (snd (save_answers os e))) \<and>
     (\<forall>fd e. time_of os e \<le> time_of os (zsock_close os fd e))"

lemma uptime_later: "steady_clock os \<Longrightarrow> time_of os (env w) \<le> time_of os (env (snd (uptime os w)))"
  by (simp add: steady_clock_def uptime_def split_beta)

lemma cache_now_later:
  assumes "steady_clock os"
  shows "time_of os (env w) \<le> time_of os (env (snd (cache_now os w)))"
proof -
  obtain now e where wall: "wall_clock os (env w) = (now, e)" by fastforce
  have "time_of os (env w) \<le> time_of os e"
    using assms wall by (simp add: steady_clock_def) (metis snd_conv)
  moreover have "time_of os e \<le> time_of os (env (snd (uptime os (w\<lparr>env := e\<rparr>))))"
    using uptime_later [OF assms, of "w\<lparr>env := e\<rparr>"] by simp
  ultimately show ?thesis by (simp add: cache_now_def wall Let_def split_beta)
qed

lemma save_cache_later:
  "steady_clock os \<Longrightarrow> time_of os (env w) \<le> time_of os (env (save_cache os w))"
  by (simp add: save_cache_def update_app_def split_beta steady_clock_def)

lemma env_update_app [simp]: "env (update_app f w) = env w"
  by (simp add: update_app_def)

lemma disconnected_event_later:
  assumes "steady_clock os"
  shows "time_of os (env w) \<le> time_of os (env (handle_transport_event os TRANSPORT_EVENT_DISCONNECTED w))"
proof -
  have ready: "env (refresh_if_ready w') = env w'" for w' :: "'a watch"
    by (simp add: refresh_if_ready_def refresh_screen_def)
  have marked: "time_of os (env w) \<le> time_of os (env (save_cache os
      (update_app (\<lambda>r. r\<lparr>rt_cache := watch_cache_mark_stale (rt_cache r) (fst (cache_now os w'))\<rparr>)
        (snd (cache_now os w')))))"
    if "env w' = env w" for w' :: "'a watch"
    using cache_now_later [OF assms, of w'] that
      save_cache_later [OF assms, of "update_app (\<lambda>r. r\<lparr>rt_cache :=
        watch_cache_mark_stale (rt_cache r) (fst (cache_now os w'))\<rparr>) (snd (cache_now os w'))"]
    by simp
  show ?thesis
    unfolding handle_transport_event_def ready by (simp add: Let_def split_beta marked)
qed

text \<open>The reading of the clock that a disconnection bases its pause on: its last call.\<close>

lemma disconnect_reads_clock:
  assumes "steady_clock os"
  obtains e where "time_of os (env w) \<le> time_of os e"
    "env (disconnect os (runtime_handlers J os) w) = snd (k_uptime_get os e)"
    "next_connect_at (trans (disconnect os (runtime_handlers J os) w)) = fst (k_uptime_get os e) + 1000"
proof -
  let ?closed = "set_socket (- 1) (w\<lparr>env := zsock_close os (socket_fd (trans w)) (env w)\<rparr>)"
  let ?told = "handle_transport_event os TRANSPORT_EVENT_DISCONNECTED ?closed"
  let ?w1 = "if 0 \<le> socket_fd (trans w) then ?told else w"
  have "time_of os (env w) \<le> time_of os (env ?closed)"
    using assms by (simp add: steady_clock_def set_socket_def)
  also have "\<dots> \<le> time_of os (env ?told)" by (rule disconnected_event_later [OF assms])
  finally have "time_of os (env w) \<le> time_of os (env ?w1)" by simp
  moreover have "disconnect os (runtime_handlers J os) w =
      back_off os (set_decoder ((decoder (trans ?w1))\<lparr>bytes := []\<rparr>) ?w1)"
    by (simp add: disconnect_def raise_event_def runtime_handlers_def Let_def)
  ultimately show thesis
    by (intro that [of "env ?w1"])
       (simp_all add: back_off_def uptime_def set_next_connect_def set_decoder_def split_beta
          RECONNECT_INTERVAL_MS_def)
qed

text \<open>
  C34. After a lost connection there is a pause of 1000 ms. Disconnecting closes the socket, empties
  the receive buffer, and sets the next attempt to 1000 ms after a moment between its beginning
  and its end. While less than 1000 ms have passed since it began, a poll does nothing
  but read the clock: no socket is opened, nothing is received or sent, and the runtime is not
  called. The clock is the uptime of the machine, which does not run backwards.
\<close>

theorem reconnect_pause:
  assumes "steady_clock os"
  shows "let w' = disconnect os (runtime_handlers J os) w; t = trans w' in
     socket_fd t < 0 \<and> bytes (decoder t) = [] \<and> session_id t = session_id (trans w) \<and>
     time_of os (env w) + 1000 \<le> sint (next_connect_at t) \<and>
     sint (next_connect_at t) \<le> time_of os (env w') + 1000 \<and>
     (\<forall>later. trans later = t \<and> time_of os (env later) < time_of os (env w) + 1000 \<longrightarrow>
        transport_poll J os (runtime_handlers J os) later = snd (uptime os later))"
proof -
  let ?w' = "disconnect os (runtime_handlers J os) w"
  obtain e where e: "time_of os (env w) \<le> time_of os e" "env ?w' = snd (k_uptime_get os e)"
      "next_connect_at (trans ?w') = fst (k_uptime_get os e) + 1000"
    by (rule disconnect_reads_clock [OF assms])
  have at: "sint (next_connect_at (trans ?w')) = time_of os e + 1000"
  proof -
    have "time_of os e < 2 ^ 62" using assms by (simp add: steady_clock_def)
    moreover have "- (2 ^ 63) \<le> time_of os e"
      using sint_ge [of "fst (k_uptime_get os e)"] by (simp add: time_of_def)
    ultimately show ?thesis
      by (simp add: e(3) time_of_def sint_word_ariths signed_take_bit_int_eq_self)
  qed
  have "time_of os e \<le> time_of os (env ?w')" using assms by (simp add: e(2) steady_clock_def)
  moreover obtain e' where "link (trans ?w') =
     (min (socket_fd (trans w)) (- 1), fst (k_uptime_get os e') + RECONNECT_INTERVAL_MS, empty_decoder,
      session_id (trans w))"
    using runtime_link.disconnect_link [where J = J and os = os and w = w] by blast
  then have t: "socket_fd (trans ?w') < 0" "decoder (trans ?w') = empty_decoder"
      "session_id (trans ?w') = session_id (trans w)"
    by (auto simp: link_def)
  moreover have "bytes empty_decoder = []" by (simp add: empty_decoder_def)
  moreover have "transport_poll J os (runtime_handlers J os) later = snd (uptime os later)"
    if later: "trans later = trans ?w'" "time_of os (env later) < time_of os (env w) + 1000" for later
  proof -
    have "sint (fst (k_uptime_get os (env later))) < sint (next_connect_at (trans later))"
      using later e(1) at by (simp add: time_of_def)
    then have "connect_if_due os (runtime_handlers J os) later = snd (uptime os later)"
      using later(1) t(1) by (intro connect_not_due) simp_all
    then show ?thesis using later(1) t(1) by (simp add: transport_poll_def Let_def)
  qed
  ultimately show ?thesis using e(1) at by (simp add: Let_def)
qed

text \<open>A machine whose clock advances with every reading, up to a last time.\<close>

definition ticking_os :: "demo_env os" where
  "ticking_os = demo_os\<lparr>k_uptime_get :=
     (\<lambda>e. if unat (demo_now e) < 1000000 then (demo_now e, e\<lparr>demo_now := demo_now e + 1\<rparr>)
          else (1000000, e))\<rparr>"

lemma ticking_time: "time_of ticking_os e = min 1000000 (int (unat (demo_now e)))"
proof (cases "unat (demo_now e) < 1000000")
  case True
  then have "int (unat (demo_now e)) < 1000000" by linarith
  then have small: "uint (demo_now e) < 1000000" by simp
  moreover have "- (2 ^ 63) \<le> uint (demo_now e)" by (rule order_trans [OF _ uint_ge_0]) simp
  ultimately have "signed_take_bit 63 (uint (demo_now e)) = uint (demo_now e)"
    by (intro signed_take_bit_int_eq_self) simp_all
  with True small show ?thesis by (simp add: time_of_def ticking_os_def sint_uint)
qed (simp add: time_of_def ticking_os_def del: of_nat_unat)

lemma ticking_steady: "steady_clock ticking_os"
  unfolding steady_clock_def ticking_time
  by (auto simp: ticking_os_def demo_os_def unat_word_ariths simp del: of_nat_unat)

theorem reconnect_pause_witness:
  "(let w = disconnect ticking_os (runtime_handlers ping_lib ticking_os) (power_on demo_start Map.empty)
    in 1000 \<le> sint (next_connect_at (trans w)) \<and>
       transport_poll ping_lib ticking_os (runtime_handlers ping_lib ticking_os) w = snd (uptime ticking_os w))"
proof -
  let ?start = "power_on demo_start Map.empty :: demo_env watch"
  let ?w = "disconnect ticking_os (runtime_handlers ping_lib ticking_os) ?start"
  have start: "time_of ticking_os (env ?start) = 0" by (simp add: ticking_time power_on_def demo_start_def)
  have "env ?w = demo_start\<lparr>demo_now := 1\<rparr>"
    by (simp add: disconnect_def power_on_def transport_start_def back_off_def uptime_def Let_def
        set_next_connect_def set_decoder_def ticking_os_def demo_start_def)
  then have "time_of ticking_os (env ?w) < 1000" by (simp only: ticking_time) simp
  then show ?thesis
    using reconnect_pause [OF ticking_steady, of ping_lib ?start] by (simp add: Let_def start)
qed

section \<open>The screen follows the state\<close>

text \<open>The last scene that was loaded shows the texts of the present state.\<close>

definition display_current :: "'e watch \<Rightarrow> bool" where
  "display_current w \<longleftrightarrow>
     (\<exists>before new screen anim time delay del.
        calls (rt_canvas (app w)) = before @ new @ [Screen_load_anim screen anim time delay del] \<and>
        shown_texts new = screen_texts (rt_state (app w)))"

lemma scene_current:
  assumes "wf_state s"
  shows "\<exists>new screen anim time delay del.
      calls (snd (run_state (renderer_refresh s) v)) =
        calls v @ new @ [Screen_load_anim screen anim time delay del] \<and> shown_texts new = screen_texts s"
    "\<exists>new screen anim time delay del.
      calls (snd (run_state (renderer_render s b) v)) =
        calls v @ new @ [Screen_load_anim screen anim time delay del] \<and> shown_texts new = screen_texts s"
proof -
  obtain v1 where 1: "run_state (scene s) \<lparr>next_obj = next_obj v, calls = []\<rparr> = (next_obj v, v1)"
      "run_state (scene s) v = (next_obj v, v1\<lparr>calls := calls v @ calls v1\<rparr>)"
    by (rule run_scene)
  have texts: "shown_texts (calls v1) = screen_texts s"
    using scene_texts [OF assms, of "next_obj v"] 1(1) by simp
  show "\<exists>new screen anim time delay del.
      calls (snd (run_state (renderer_refresh s) v)) =
        calls v @ new @ [Screen_load_anim screen anim time delay del] \<and> shown_texts new = screen_texts s"
    using 1(2) texts by (intro exI [of _ "calls v1"]) (auto simp: renderer_scene)
  show "\<exists>new screen anim time delay del.
      calls (snd (run_state (renderer_render s b) v)) =
        calls v @ new @ [Screen_load_anim screen anim time delay del] \<and> shown_texts new = screen_texts s"
    using 1(2) texts by (intro exI [of _ "calls v1"]) (auto simp: renderer_scene watch_animation_load_def)
qed

lemma display_currentI:
  "calls (rt_canvas (app w)) = before @ new @ [Screen_load_anim screen anim time delay del] \<Longrightarrow>
   shown_texts new = screen_texts (rt_state (app w)) \<Longrightarrow> display_current w"
  unfolding display_current_def by blast

lemma display_refresh: "wf_state (rt_state (app w)) \<Longrightarrow> display_current (refresh_screen w)"
  using scene_current(1) [of "rt_state (app w)" "rt_canvas (app w)"]
  by (auto simp: refresh_screen_def intro: display_currentI [of _ "calls (rt_canvas (app w))"])

lemma display_render:
  assumes "wf_navigation (rt_navigation (app w))" "wf_state (rt_state (app w))"
  shows "display_current (render_current os b w)"
  using scene_current(2) [OF wf_navigation_state [OF assms], of b "rt_canvas (app w)"]
  by (auto simp: render_current_def split_beta Let_def
      intro: display_currentI [of _ "calls (rt_canvas (app w))"])

lemma display_same:
  "rt_canvas (app w') = rt_canvas (app w) \<Longrightarrow> rt_state (app w') = rt_state (app w) \<Longrightarrow>
   display_current w' = display_current w"
  by (simp add: display_current_def)

lemma save_cache_shows [simp]:
  "rt_canvas (app (save_cache os w)) = rt_canvas (app w)" "rt_state (app (save_cache os w)) = rt_state (app w)"
  "rt_cache (app (save_cache os w)) = rt_cache (app w)" "runtime_ready (app (save_cache os w)) = runtime_ready (app w)"
  by (simp_all add: save_cache_def split_beta)

lemma capture_sync_at_shows [simp]:
  "rt_canvas (app (capture_sync_at os now w)) = rt_canvas (app w)"
  "rt_state (app (capture_sync_at os now w)) = rt_state (app w)"
  "runtime_ready (app (capture_sync_at os now w)) = runtime_ready (app w)"
  by (simp_all add: capture_sync_at_def)

lemma display_kept [simp]:
  "display_current (save_cache os w) = display_current w"
  "display_current (capture_sync_at os now w) = display_current w"
  "display_current (snd (cache_now os w)) = display_current w"
  "display_current (update_app (\<lambda>r. r\<lparr>rt_cache := f r\<rparr>) w) = display_current w"
  "display_current (update_app (\<lambda>r. r\<lparr>rt_actions := g r\<rparr>) w) = display_current w"
  "display_current (update_app (\<lambda>r. r\<lparr>rt_sync := sy\<rparr>) w) = display_current w"
  by (rule display_same; simp)+

lemma display_event:
  assumes "wf_state (rt_state (app w))" "runtime_ready (app w)"
  shows "display_current (handle_transport_event os event w)"
proof -
  have refreshed: "runtime_ready (app w') \<Longrightarrow> wf_state (rt_state (app w')) \<Longrightarrow>
      display_current (refresh_if_ready w')" for w' :: "'a watch"
    by (simp add: refresh_if_ready_def display_refresh)
  obtain a s where f: "watch_actions_fail (rt_actions (app w)) (rt_state (app w)) ''HOST OFFLINE'' = (a, s)"
    by fastforce
  have "wf_state s"
    using assms(1) f by (auto simp: watch_actions_fail_def wf_set_feedback wf_state_music split: if_splits)
  with assms have kept: "runtime_ready (app w1) \<and> wf_state (rt_state (app w1))"
    if "w1 = (if pending (rt_actions (app w)) then update_app (\<lambda>r. r\<lparr>rt_actions := a, rt_state := s\<rparr>) w else w)" for w1
    using that by simp
  show ?thesis
  proof (cases event)
    case TRANSPORT_EVENT_CONNECTED
    with assms show ?thesis
      by (simp add: handle_transport_event_def del: display_kept) (rule refreshed, simp_all)
  next
    case TRANSPORT_EVENT_DISCONNECTED
    then show ?thesis
      using kept [OF refl]
      by (simp add: handle_transport_event_def f Let_def split_beta del: display_kept)
         (intro refreshed conjI impI; simp)
  qed
qed

lemma handle_unchanged:
  assumes "watch_sync_handle J sync s msg = (result, sync', s')"
    and "result \<noteq> WATCH_SYNC_CHANGED" "result \<noteq> WATCH_SYNC_NEEDS_SNAPSHOT"
  shows "s' = s"
  using assms by (auto simp: watch_sync_handle_def Let_def split: if_splits sum.splits prod.splits)

lemma display_message:
  assumes ok: "wf_state (rt_state (app w))" "wf_sync (rt_sync (app w))" "runtime_ready (app w)" "display_current w"
    and seen: "msg_type m \<noteq> WATCH_MESSAGE_COMMAND_RESULT \<Longrightarrow>
      fst (watch_sync_handle J (rt_sync (app w)) (rt_state (app w)) m) \<noteq> WATCH_SYNC_NEEDS_SNAPSHOT"
  shows "display_current (snd (handle_protocol_message J os m w))"
proof (cases "msg_type m = WATCH_MESSAGE_COMMAND_RESULT")
  case True
  obtain handled a s where h: "watch_actions_handle_result (rt_actions (app w)) (rt_state (app w)) m = (handled, a, s)"
    by (metis prod_cases3)
  have s: "wf_state s" "\<not> handled \<Longrightarrow> s = rt_state (app w) \<and> a = rt_actions (app w)"
    using ok(1) h by (auto simp: watch_actions_handle_result_def watch_actions_fail_def wf_set_feedback
        wf_state_music split: if_splits)
  show ?thesis
  proof (cases handled)
    case False
    with True h s(2) ok(4) show ?thesis
      by (simp add: handle_protocol_message_def Let_def) (rule iffD1 [OF display_same], auto)
  next
    case handled: True
    have "display_current (refresh_screen (capture_sync_at os now (snd (cache_now os
        (update_app (\<lambda>r. r\<lparr>rt_actions := a, rt_state := s\<rparr>) w)))))" for now
      by (rule display_refresh) (simp add: s(1))
    with True h handled ok(3) show ?thesis
      by (simp add: handle_protocol_message_def Let_def split_beta refresh_if_ready_def)
  qed
next
  case False
  obtain result sync s where h: "watch_sync_handle J (rt_sync (app w)) (rt_state (app w)) m = (result, sync, s)"
    by (metis prod_cases3)
  have s: "wf_state s" by (rule wf_state_handle [OF ok(2,1) h])
  show ?thesis
  proof (cases "result = WATCH_SYNC_CHANGED")
    case changed: True
    have "display_current (refresh_screen (capture_sync_at os now (update_app (\<lambda>r. r\<lparr>rt_state := (rt_state r)
        \<lparr>connection := WATCH_CONNECTION_ONLINE, host_data_stale := False, host_data_updated_at_ms := now\<rparr>\<rparr>)
        (snd (cache_now os (update_app (\<lambda>r. r\<lparr>rt_sync := sync, rt_state := s\<rparr>) w))))))" for now
      by (rule display_refresh) (simp add: s)
    with False h changed ok(3) show ?thesis
      by (simp add: handle_protocol_message_def Let_def split_beta refresh_if_ready_def)
  next
    case unchanged: False
    have "result \<noteq> WATCH_SYNC_NEEDS_SNAPSHOT" using seen [OF False] h by simp
    with unchanged have "s = rt_state (app w)" by (intro handle_unchanged [OF h])
    then have "display_current (update_app (\<lambda>r. r\<lparr>rt_sync := sync, rt_state := s\<rparr>) w)"
      by (intro iffD1 [OF display_same ok(4)]) simp_all
    with False h unchanged \<open>result \<noteq> WATCH_SYNC_NEEDS_SNAPSHOT\<close> show ?thesis
      by (simp add: handle_protocol_message_def Let_def)
  qed
qed

lemma display_activate:
  assumes st: "wf_state (rt_state (app w))" and "display_current w"
  shows "display_current (activate_music os w)"
proof (cases "active_screen (rt_state (app w)) = WATCH_SCREEN_MUSIC")
  case False
  with assms(2) show ?thesis by (simp add: activate_music_def)
next
  case True
  obtain now w0 where now: "cache_now os w = (now, w0)" by fastforce
  then have w0: "trans w0 = trans w" "app w0 = app w" using cache_now_keeps [of os w] by simp_all
  obtain begun a s where b: "watch_actions_begin_music (rt_actions (app w)) (rt_state (app w)) now = (begun, a, s)"
    by (metis prod_cases3)
  show ?thesis
  proof (cases begun)
    case False
    then have "a = rt_actions (app w)" "s = rt_state (app w)"
      using b by (auto simp: watch_actions_begin_music_def split: if_splits)
    with True False show ?thesis
      using assms(2) by (simp add: activate_music_def now b w0 display_current_def)
  next
    case begun: True
    note b = b [unfolded eqTrueI [OF begun]]
    let ?w1 = "update_app (\<lambda>r. r\<lparr>rt_actions := a, rt_state := s\<rparr>) w0"
    obtain sent w2 where sent: "transport_send_music_action os (music_playing s) (refresh_screen ?w1) = (sent, w2)"
      by fastforce
    obtain a' s' where f: "watch_actions_fail a s ''HOST OFFLINE'' = (a', s')" by fastforce
    note tap = activate_begun [OF True now b sent f]
    have wf: "wf_state s" using st b
      by (auto simp: watch_actions_begin_music_def wf_set_feedback wf_state_music split: if_splits)
    then have wf': "wf_state s'" using f
      by (auto simp: watch_actions_fail_def wf_set_feedback wf_state_music split: if_splits)
    have "display_current (refresh_screen ?w1)" by (rule display_refresh) (simp add: wf)
    then have "display_current w2" by (rule iffD1 [OF display_same, rotated 2]) (simp_all add: tap(4))
    moreover have "display_current (refresh_screen (update_app (\<lambda>r. r\<lparr>rt_actions := a', rt_state := s'\<rparr>) w2))"
      by (rule display_refresh) (simp add: wf')
    ultimately have "display_current (settle_tap sent a' s' w2)"
      by (cases sent) (simp_all add: settle_tap_def)
    with tap(1) show ?thesis by (simp add: split_beta)
  qed
qed

lemma display_action:
  assumes ok: "watch_ok os w" and "display_current w"
  shows "display_current (handle_action os action w)"
proof -
  from ok have nav: "wf_navigation (rt_navigation (app w))" and st: "wf_state (rt_state (app w))"
    by (simp_all add: watch_ok_def rt_ok_def actions_ok_def)
  show ?thesis
  proof (cases action)
    case RENDERER_ACTION_NEXT
    have "display_current (render_current os False
        (update_app (\<lambda>r. r\<lparr>rt_navigation := snd (navigation_next (rt_navigation (app w)))\<rparr>) w))"
      by (rule display_render) (simp_all add: wf_navigation_next nav st)
    with RENDERER_ACTION_NEXT show ?thesis
      by (simp add: handle_action_def navigate_def split_beta Let_def navigate_moves)
  next
    case RENDERER_ACTION_PREVIOUS
    have "display_current (render_current os True
        (update_app (\<lambda>r. r\<lparr>rt_navigation := snd (navigation_previous (rt_navigation (app w)))\<rparr>) w))"
      by (rule display_render) (simp_all add: wf_navigation_previous nav st)
    with RENDERER_ACTION_PREVIOUS show ?thesis
      by (simp add: handle_action_def navigate_def split_beta Let_def navigate_moves)
  next
    case RENDERER_ACTION_NEXT_ITEM
    have "display_current (refresh_screen (update_app (\<lambda>r. r\<lparr>rt_state := snd (watch_state_notification_next (rt_state (app w)))\<rparr>) w))"
      by (rule display_refresh) (simp add: wf_notification_next st)
    with RENDERER_ACTION_NEXT_ITEM assms(2) show ?thesis
      by (simp add: handle_action_def navigate_def split_beta Let_def)
         (simp add: watch_state_notification_next_def Let_def update_app_def)
  next
    case RENDERER_ACTION_PREVIOUS_ITEM
    have "display_current (refresh_screen (update_app (\<lambda>r. r\<lparr>rt_state := snd (watch_state_notification_previous (rt_state (app w)))\<rparr>) w))"
      by (rule display_refresh) (simp add: wf_notification_previous st)
    with RENDERER_ACTION_PREVIOUS_ITEM assms(2) show ?thesis
      by (simp add: handle_action_def navigate_def split_beta Let_def)
         (simp add: watch_state_notification_previous_def Let_def update_app_def)
  next
    case RENDERER_ACTION_ACTIVATE
    then show ?thesis using display_activate [OF st assms(2)] by (simp add: handle_action_def)
  qed
qed

lemma display_timeouts:
  assumes "watch_ok os w" "display_current w"
  shows "display_current (poll_actions os w)"
proof -
  have st: "wf_state (rt_state (app w))" using assms(1) by (simp add: watch_ok_def rt_ok_def actions_ok_def)
  obtain now w1 where c: "cache_now os w = (now, w1)" by fastforce
  then have w1: "app w1 = app w" using cache_now_keeps [of os w] by simp
  obtain out a t where t: "watch_actions_poll_timeout (rt_actions (app w)) (rt_state (app w)) now = (out, a, t)"
    by (metis prod_cases3)
  let ?w2 = "update_app (\<lambda>r. r\<lparr>rt_actions := a, rt_state := t\<rparr>) w1"
  have "wf_state t"
    using st t by (auto simp: watch_actions_poll_timeout_def watch_actions_fail_def wf_set_feedback
        wf_state_music split: if_splits)
  then have shown: "display_current (refresh_screen ?w2)" by (intro display_refresh) simp
  have "\<not> out \<Longrightarrow> t = rt_state (app w)"
    using t by (auto simp: watch_actions_poll_timeout_def split: if_splits)
  then have "\<not> out \<Longrightarrow> display_current ?w2"
    using assms(2) by (intro iffD1 [OF display_same assms(2)]) (simp_all add: w1)
  with shown show ?thesis by (simp add: poll_actions_def c w1 t Let_def)
qed

text \<open>
  C2. What the user sees is the state: once the runtime is ready and the last loaded scene shows the
  state's texts, it still does after every action of the user, every connection event, every
  timeout poll, and every message but one, a snapshot or change that leaves a gap in the
  revisions.
\<close>

theorem display_follows_state:
  assumes "watch_ok os w" and "runtime_ready (app w)" and "display_current w"
  shows "display_current (handle_action os action w) \<and>
    display_current (handle_transport_event os event w) \<and>
    display_current (poll_actions os w) \<and>
    (msg_type m = WATCH_MESSAGE_COMMAND_RESULT \<or>
     fst (watch_sync_handle J (rt_sync (app w)) (rt_state (app w)) m) \<noteq> WATCH_SYNC_NEEDS_SNAPSHOT \<longrightarrow>
       display_current (snd (handle_protocol_message J os m w)))"
proof -
  have wf: "wf_state (rt_state (app w))" "wf_sync (rt_sync (app w))"
    using assms(1) by (simp_all add: watch_ok_def rt_ok_def actions_ok_def)
  then show ?thesis
    using display_action [OF assms(1,3)] display_event [OF wf(1) assms(2)]
      display_timeouts [OF assms(1,3)] display_message [OF wf assms(2,3), of m J os]
    by blast
qed

text \<open>A watch that has just been initialised, offline, with an empty disk, and drawn.\<close>

definition fresh_watch :: "demo_env watch" where
  "fresh_watch = refresh_screen (update_app (\<lambda>r. r\<lparr>rt_state := watch_state_init,
     rt_sync := watch_sync_init, rt_actions := watch_actions_init,
     rt_navigation := navigation_init (rt_navigation r), rt_cache := watch_cache_init\<rparr>)
     (power_on demo_start Map.empty))"

definition ready_watch :: "demo_env watch" where
  "ready_watch = refresh_screen (update_app (\<lambda>r. r\<lparr>runtime_ready := True\<rparr>) fresh_watch)"

lemma ready_watch_ok:
  "watch_ok demo_os ready_watch" "runtime_ready (app ready_watch)" "display_current ready_watch"
proof -
  have "disk_ok (cache_variable demo_os) Map.empty"
    by (simp add: demo_os_def disk_ok_def watch_cache_storage_load_def cache_path_def)
  then have "rt_ok (cache_variable demo_os) False (app fresh_watch)"
    using fresh_ok [of "cache_variable demo_os" "app (power_on demo_start Map.empty)"]
    by (simp add: fresh_watch_def power_on_def)
  then show ok: "watch_ok demo_os ready_watch"
    by (simp add: watch_ok_def ready_watch_def transport_connected_def fresh_watch_def power_on_def
        transport_start_def)
  show "runtime_ready (app ready_watch)" by (simp add: ready_watch_def refresh_screen_def)
  from ok have "wf_state (rt_state (app (update_app (\<lambda>r. r\<lparr>runtime_ready := True\<rparr>) fresh_watch)))"
    by (simp add: watch_ok_def ready_watch_def rt_ok_def actions_ok_def refresh_screen_def)
  then show "display_current ready_watch" unfolding ready_watch_def by (rule display_refresh)
qed

theorem display_follows_state_witness:
  "display_current (handle_action demo_os RENDERER_ACTION_NEXT ready_watch) \<and>
   display_current (snd (handle_protocol_message ping_lib demo_os rejection ready_watch))"
  using display_follows_state [OF ready_watch_ok, of RENDERER_ACTION_NEXT TRANSPORT_EVENT_CONNECTED rejection ping_lib]
  by (simp add: rejection_def)

text \<open>The exception: the state is replaced, but neither drawn nor saved.\<close>

lemma gap_snapshot_unseen:
  assumes "msg_type m \<noteq> WATCH_MESSAGE_COMMAND_RESULT"
    and "watch_sync_handle J (rt_sync (app w)) (rt_state (app w)) m = (WATCH_SYNC_NEEDS_SNAPSHOT, sync, s)"
  shows "app (snd (handle_protocol_message J os m w)) = (app w)\<lparr>rt_sync := sync, rt_state := s\<rparr>"
  using assms by (simp add: handle_protocol_message_def)

text \<open>The same watch on another screen, still offline.\<close>

definition watch_on :: "watch_screen \<Rightarrow> demo_env watch" where
  "watch_on x = render_current demo_os False
     (update_app (\<lambda>r. r\<lparr>rt_navigation := navigation_replace (navigation_init zero_navigation) x\<rparr>) ready_watch)"

lemma watch_on_ok:
  assumes "valid_screen x"
  shows "watch_ok demo_os (watch_on x)" "socket_fd (trans (watch_on x)) = - 1"
    "active_screen (rt_state (app (watch_on x))) = x" "rt_cache (app (watch_on x)) = watch_cache_init"
proof -
  have nav: "wf_navigation (navigation_replace (navigation_init zero_navigation) x)"
    by (rule wf_navigation_replace) (simp_all add: assms)
  show "watch_ok demo_os (watch_on x)"
    unfolding watch_on_def by (rule watch_ok_carousel [OF ready_watch_ok(1) nav])
  show "socket_fd (trans (watch_on x)) = - 1"
    by (simp add: watch_on_def render_current_keeps ready_watch_def fresh_watch_def power_on_def
        transport_start_def)
  show "active_screen (rt_state (app (watch_on x))) = x"
    by (simp add: watch_on_def render_current_def split_beta Let_def watch_state_set_screen_def)
  show "rt_cache (app (watch_on x)) = watch_cache_init"
    by (simp add: watch_on_def render_current_def split_beta Let_def ready_watch_def fresh_watch_def
        refresh_screen_def)
qed

section \<open>Actions and the cache\<close>

lemma capture_application_cache:
  "rt_cache (app (save_cache os (update_app (\<lambda>r. r\<lparr>rt_cache := f r\<rparr>) w))) = f (app w)"
  by simp

text \<open>A step in the list captures the application state when it moves the cursor.\<close>

lemma item_captures:
  assumes "active_screen (rt_state (app w)) = WATCH_SCREEN_NOTIFICATIONS"
  shows "watch_state_notification_next (rt_state (app w)) = (True, s) \<Longrightarrow>
      \<exists>now. rt_cache (app (handle_action os RENDERER_ACTION_NEXT_ITEM w)) =
        watch_cache_capture_application (rt_cache (app w)) s now"
    "watch_state_notification_previous (rt_state (app w)) = (True, s) \<Longrightarrow>
      \<exists>now. rt_cache (app (handle_action os RENDERER_ACTION_PREVIOUS_ITEM w)) =
        watch_cache_capture_application (rt_cache (app w)) s now"
    "watch_state_notification_next (rt_state (app w)) = (False, s) \<Longrightarrow>
      rt_cache (app (handle_action os RENDERER_ACTION_NEXT_ITEM w)) = rt_cache (app w)"
    "watch_state_notification_previous (rt_state (app w)) = (False, s) \<Longrightarrow>
      rt_cache (app (handle_action os RENDERER_ACTION_PREVIOUS_ITEM w)) = rt_cache (app w)"
  using assms
  by (simp_all add: handle_action_def navigate_def Let_def split_beta)
     (auto simp: refresh_screen_def)

lemma captured_valid_iff:
  assumes "wf_cache c" "wf_state s"
  shows "wf_cache (watch_cache_capture_application c s now) \<longleftrightarrow>
    (unat (stored_count (cached_notifications c)) = 0 \<and> unat (active_index (notifications s)) = 0) \<or>
    unat (active_index (notifications s)) < unat (stored_count (cached_notifications c))"
  using capture_application_valid [OF assms(1), of s now] assms(2)
  by (simp add: cursor_ok_unat wf_state_def)

text \<open>
  C30. Browsing and the cache, in both directions: a step to the next notification seals a cache
  record that can be restored precisely when the new cursor lies inside the list the cache
  holds, and so does a step back, for which there is one more case, because the first
  position is valid over an empty cached list, too. A step that the list does not allow leaves the
  record alone. The cache follows the state only on complete synchronisations, so after a
  snapshot that left a gap the sealed record can be invalid, and the next start ignores it.
\<close>

theorem browsing_keeps_cache_valid_iff:
  assumes "watch_ok os w" and "wf_cache (rt_cache (app w))"
    and "active_screen (rt_state (app w)) = WATCH_SCREEN_NOTIFICATIONS"
  shows "let cursor = unat (active_index (notifications (rt_state (app w))));
      count = unat (stored_count (notifications (rt_state (app w))));
      cached = unat (stored_count (cached_notifications (rt_cache (app w))));
      next_cache = rt_cache (app (handle_action os RENDERER_ACTION_NEXT_ITEM w));
      previous_cache = rt_cache (app (handle_action os RENDERER_ACTION_PREVIOUS_ITEM w))
    in (if Suc cursor < count then wf_cache next_cache \<longleftrightarrow> Suc cursor < cached
        else next_cache = rt_cache (app w)) \<and>
       (if 0 < cursor then wf_cache previous_cache \<longleftrightarrow> cursor - 1 < cached \<or> (cached = 0 \<and> cursor = 1)
        else previous_cache = rt_cache (app w))"
proof -
  let ?s = "rt_state (app w)" and ?c = "rt_cache (app w)"
  have wf: "wf_state ?s" using assms(1) by (simp add: watch_ok_def rt_ok_def actions_ok_def)
  obtain ok1 s1 where nx: "watch_state_notification_next ?s = (ok1, s1)" by fastforce
  obtain ok2 s2 where pv: "watch_state_notification_previous ?s = (ok2, s2)" by fastforce
  note captured = captured_valid_iff [OF assms(2)]
  have wf1: "wf_state s1" "wf_state s2"
    using wf_notification_next [OF wf] wf_notification_previous [OF wf] nx pv by simp_all
  note cursors = notification_next_cursor [OF nx] notification_previous_cursor [OF pv]
  note item = item_captures [OF assms(3)]
  have "if Suc (unat (active_index (notifications ?s))) < unat (stored_count (notifications ?s))
      then wf_cache (rt_cache (app (handle_action os RENDERER_ACTION_NEXT_ITEM w))) \<longleftrightarrow>
        Suc (unat (active_index (notifications ?s))) < unat (stored_count (cached_notifications ?c))
      else rt_cache (app (handle_action os RENDERER_ACTION_NEXT_ITEM w)) = ?c"
  proof (cases ok1)
    case True
    with item(1) [of s1 os] nx obtain now where
      "rt_cache (app (handle_action os RENDERER_ACTION_NEXT_ITEM w)) = watch_cache_capture_application ?c s1 now"
      by auto
    then show ?thesis using captured [OF wf1(1), of now] cursors(1) True by simp
  next
    case False
    then show ?thesis using item(3) [of s1 os] nx cursors(1) by simp
  qed
  moreover have "if 0 < unat (active_index (notifications ?s))
      then wf_cache (rt_cache (app (handle_action os RENDERER_ACTION_PREVIOUS_ITEM w))) \<longleftrightarrow>
        unat (active_index (notifications ?s)) - 1 < unat (stored_count (cached_notifications ?c)) \<or>
        (unat (stored_count (cached_notifications ?c)) = 0 \<and> unat (active_index (notifications ?s)) = 1)
      else rt_cache (app (handle_action os RENDERER_ACTION_PREVIOUS_ITEM w)) = ?c"
  proof (cases ok2)
    case True
    with item(2) [of s2 os] pv obtain now where
      "rt_cache (app (handle_action os RENDERER_ACTION_PREVIOUS_ITEM w)) = watch_cache_capture_application ?c s2 now"
      by auto
    then show ?thesis using captured [OF wf1(2), of now] cursors(2) True by auto
  next
    case False
    then show ?thesis using item(4) [of s2 os] pv cursors(2) by simp
  qed
  ultimately show ?thesis by (simp only: Let_def)
qed

text \<open>Two notifications that the cache has not seen.\<close>

definition unsaved_watch :: "demo_env watch" where
  "unsaved_watch = update_app (\<lambda>r. r\<lparr>rt_state := (rt_state r)\<lparr>notifications :=
       zero_notification_list\<lparr>total_count := 2, stored_count := 2\<rparr>\<rparr>\<rparr>) (watch_on WATCH_SCREEN_NOTIFICATIONS)"

theorem browsing_keeps_cache_valid_iff_witness:
  "\<not> wf_cache (rt_cache (app (handle_action demo_os RENDERER_ACTION_NEXT_ITEM unsaved_watch)))"
proof -
  note w = watch_on_ok [of WATCH_SCREEN_NOTIFICATIONS, simplified]
  let ?l = "zero_notification_list\<lparr>total_count := 2, stored_count := 2\<rparr>"
  have zero: "active_index zero_notification_list = 0" "stored_count zero_notification_list = 0"
    by (simp_all add: zero_notification_list_def)
  have l: "wf_notification_list ?l"
    using wf_zero_notification_list
    by (simp add: wf_notification_list_def cursor_ok_def WATCH_NOTIFICATION_CAPACITY_def zero)
  let ?s = "(rt_state (app (watch_on WATCH_SCREEN_NOTIFICATIONS)))\<lparr>notifications := ?l\<rparr>"
  have "wf_state ?s"
    using w(1) l by (auto simp: watch_ok_def rt_ok_def actions_ok_def wf_state_def)
  then have "watch_ok demo_os unsaved_watch"
    using w(1) rt_ok_browse [of "cache_variable demo_os"
        "transport_connected (watch_on WATCH_SCREEN_NOTIFICATIONS)" "app (watch_on WATCH_SCREEN_NOTIFICATIONS)" ?s]
    by (simp add: watch_ok_def unsaved_watch_def transport_connected_def)
  moreover have "rt_cache (app unsaved_watch) = watch_cache_init"
      "active_screen (rt_state (app unsaved_watch)) = WATCH_SCREEN_NOTIFICATIONS"
      "notifications (rt_state (app unsaved_watch)) = ?l"
    using w by (simp_all add: unsaved_watch_def)
  moreover have "cached_notifications watch_cache_init = zero_notification_list"
    by (simp add: watch_cache_init_def zero_cache_def)
  ultimately show ?thesis
    using browsing_keeps_cache_valid_iff [of demo_os unsaved_watch] by (simp add: zero Let_def)
qed

text \<open>
  C31. A tap while offline: on the music screen without a connection the action is begun and
  rolled back at once, so the music state is what it was, but the cache is captured all the same: its
  host data get the watch's present values, a newer version, the current time, and lose their
  stale mark, although no host has sent anything.
\<close>

theorem offline_tap_refreshes_cache:
  assumes "watch_ok os w" and "socket_fd (trans w) < 0"
    and "active_screen (rt_state (app w)) = WATCH_SCREEN_MUSIC"
  shows "let r = app w; r' = app (activate_music os w) in
    music_playing (rt_state r') = music_playing (rt_state r) \<and>
    \<not> music_action_pending (rt_state r') \<and> \<not> pending (rt_actions r') \<and>
    connection (rt_state r') = WATCH_CONNECTION_OFFLINE \<and>
    version (weather_meta (rt_cache r')) = version (weather_meta (rt_cache r)) + 1 \<and>
    stale (weather_meta (rt_cache r')) = 0 \<and>
    cached_temperature_c (rt_cache r') = temperature_c (rt_state r)"
proof -
  from assms(1,2) have p: "\<not> pending (rt_actions (app w))"
      "connection (rt_state (app w)) = WATCH_CONNECTION_OFFLINE"
    by (simp_all add: watch_ok_def rt_ok_def transport_connected_def)
  obtain now w0 where now: "cache_now os w = (now, w0)" by fastforce
  then have w0: "trans w0 = trans w" "app w0 = app w" using cache_now_keeps [of os w] by simp_all
  obtain a s where b: "watch_actions_begin_music (rt_actions (app w)) (rt_state (app w)) now = (True, a, s)"
    using p(1) by (simp add: watch_actions_begin_music_def)
  then have s: "pending a" "previous_music_playing a = music_playing (rt_state (app w))"
      "connection s = WATCH_CONNECTION_OFFLINE" "temperature_c s = temperature_c (rt_state (app w))"
    using p by (auto simp: watch_actions_begin_music_def set_feedback_def)
  let ?w1 = "update_app (\<lambda>r. r\<lparr>rt_actions := a, rt_state := s\<rparr>) w0"
  have sent: "transport_send_music_action os (music_playing s) (refresh_screen ?w1) =
      (Inl ENOTCONN, refresh_screen ?w1)"
    using assms(2) by (simp add: transport_send_music_action_def w0)
  obtain a' s' where f: "watch_actions_fail a s ''HOST OFFLINE'' = (a', s')" by fastforce
  then have s': "\<not> pending a'" "music_playing s' = music_playing (rt_state (app w))"
      "\<not> music_action_pending s'" "connection s' = WATCH_CONNECTION_OFFLINE"
      "temperature_c s' = temperature_c (rt_state (app w))"
    using s by (auto simp: watch_actions_fail_def set_feedback_def)
  note tap = activate_begun(1) [OF assms(3) now b sent f]
  obtain now' w3 where now': "cache_now os (settle_tap (Inl ENOTCONN) a' s' (refresh_screen ?w1)) = (now', w3)"
    by fastforce
  then have "app w3 = app (settle_tap (Inl ENOTCONN) a' s' (refresh_screen ?w1))"
    using cache_now_keeps(2) [of os "settle_tap (Inl ENOTCONN) a' s' (refresh_screen ?w1)"] by simp
  then have w3: "rt_state (app w3) = s'" "rt_actions (app w3) = a'" "rt_cache (app w3) = rt_cache (app w)"
    by (simp_all add: settle_tap_def refresh_screen_def w0)
  have "rt_actions (app (save_cache os' w')) = rt_actions (app w')" for os' :: "'a os" and w' :: "'a watch"
    by (simp add: save_cache_def split_beta)
  then show ?thesis
    unfolding tap now' Let_def
    by (simp add: capture_sync_at_def w3 s' watch_cache_capture_sync_def refresh_def)
qed

theorem offline_tap_refreshes_cache_witness:
  "(let w = watch_on WATCH_SCREEN_MUSIC; r = app (activate_music demo_os w) in
    connection (rt_state r) = WATCH_CONNECTION_OFFLINE \<and>
    version (weather_meta (rt_cache (app w))) = 0 \<and>
    version (weather_meta (rt_cache r)) = 1 \<and> stale (weather_meta (rt_cache r)) = 0)"
proof -
  note w = watch_on_ok [of WATCH_SCREEN_MUSIC, simplified]
  have "version (weather_meta watch_cache_init) = 0"
    by (simp add: watch_cache_init_def zero_cache_def zero_meta_def)
  then show ?thesis
    using offline_tap_refreshes_cache [OF w(1) _ w(3)] w(2,4) by (simp add: Let_def)
qed

text \<open>
  The start fails only when the display is not ready, before it has touched anything; otherwise
  the loop is entered, whatever the cache file, the network and the buttons do.
\<close>

lemma start_fails_only_without_display:
  "watch_runtime_start J os w = Inl code \<longleftrightarrow> \<not> device_is_ready os \<and> code = ENODEV"
  by (auto simp: watch_runtime_start_def watch_platform_init_def Let_def split_beta)

end
