(* ===== verification/Spec2Isabelle.thy ===== *)
theory Spec2Isabelle
  imports Navigation Watch_Input App_Registry Frame_Decoder Host_Consistency Cache_Storage
    Transport_Link Renderer_Scene Runtime_Loop
begin

text \<open>
  A verification development for the firmware of the CMF Watch Pro 2 simulator, the C program
  under \<open>src/watch/src\<close>.

  \<^bold>\<open>The program.\<close> One thread runs the main loop of \<open>runtime/watch_runtime.c\<close>. Each round polls the
  TCP connection to the host (\<open>transport/transport.c\<close>), whose bytes go through the frame decoder and
  the JSON envelope decoder (\<open>protocol/watch_protocol.c\<close>); a decoded message reaches the runtime,
  which hands state messages to the synchroniser (\<open>state/watch_sync.c\<close>) and command results to the
  optimistic actions (\<open>actions/watch_actions.c\<close>), both of which change the watch's state
  (\<open>state/watch_state.c\<close>). Then the buttons and the gestures (\<open>input\<close>), the timeout of a pending
  action, and LVGL's timer handler are served. A change is drawn by the renderer
  (\<open>renderer/renderer.c\<close>, \<open>animation\<close>), with the screen chosen by the navigation
  (\<open>navigation/navigation.c\<close>) and the texts of the applications (\<open>apps\<close>), and the state is captured
  into a checksummed record (\<open>cache/watch_cache.c\<close>) that is saved to a file
  (\<open>cache/watch_cache_storage.c\<close>) and restored at the next start.

  \<^bold>\<open>The theories and what they model.\<close> Definitions keep the names of the C functions and structures.

  \<^item> \<open>Watch_Prelude\<close>: machine integers, error codes, C strings and arrays of characters, machines with an
    invariant. \<open>C_Format\<close>: the conversions of \<open>printf\<close> and \<open>snprintf\<close>. \<open>Byte_Layout\<close>: little-endian words,
    chunks of bytes, hashes that are sensitive to every byte.
  \<^item> \<open>Watch_State\<close>, \<open>Navigation\<close>, \<open>Watch_Input\<close>, \<open>App_Registry\<close>: the watch's state and its invariant
    \<open>wf_state\<close>; the bounded stack of screens, refined for every sequence of operations, and the
    carousel; swipes and buttons, and when a press is delivered; the table of applications and the
    platform's capabilities.
  \<^item> \<open>Json_Api\<close>: Zephyr's JSON iterators as a parameter. \<open>Utf8\<close>, \<open>Watch_Protocol\<close>, \<open>Frame_Decoder\<close>: the
    UTF-8 check against the definition of the encoding, the envelope decoder against a specification of valid
    envelopes, the byte-wise decoder against a reader of lines.
  \<^item> \<open>Sync_Parse\<close>, \<open>Watch_Sync\<close>: number and member parsers, snapshots and changes; the synchroniser with
    its sixteen slots against one with a map from revisions to changes.
  \<^item> \<open>Host_Messages\<close>, \<open>Host_Consistency\<close>: specifications, no code. What a host's messages say, as relations
    between JSON texts and values that do not use the parsers; that the parsers read exactly this; and the
    agreement of the watch with the host's history under loss, duplication and reordering, while
    music actions come and go.
  \<^item> \<open>Watch_Actions\<close>: the life cycle of a music action, its rollback and its timeout.
  \<^item> \<open>Watch_Cache\<close>, \<open>Cache_Storage\<close>: the record and its 912 bytes, the checksum, capture and restoration; the
    file operations with their faults, as the list of the file systems a save goes through, where a
    renaming moves the content the temporary file really has.
  \<^item> \<open>Host_Calls\<close>: the record of all calls that leave the program, over an arbitrary environment. \<open>Transport\<close>,
    \<open>Transport_Link\<close>: connection, frames, session identifier; what every client of the transport
    can rely on, as the locale \<open>transport_client\<close>.
  \<^item> \<open>Renderer\<close>, \<open>Renderer_Scene\<close>: the drawings in a state monad that records the LVGL calls, the gestures;
    the scope of the objects, and the texts on the screen against a table written without the renderer.
  \<^item> \<open>Watch_Runtime\<close>, \<open>Runtime_Invariant\<close>, \<open>Runtime_Loop\<close>: the runtime's handlers, the start and the loop;
    the invariant of every operation, with the interpretation of \<open>transport_client\<close> by the runtime's
    handlers; the invariant of the whole watch and the properties of the composition.

  \<^bold>\<open>Conventions.\<close> A function that returns 0 or a negative code yields \<open>errno + 'a\<close>. State is passed explicitly;
  the runtime and the transport act on a \<open>world\<close> of the transport's variables, the environment and
  the runtime's record. Integers keep their width where the code can overflow. Arrays of
  characters are whole lists, because the firmware copies and hashes whole arrays.

  \<^bold>\<open>Loops.\<close> All loops but the main one are total functions: they recurse on their data, \<open>send_bytes\<close> on the
  bytes still to be sent, \<open>replay_buffer\<close> on the occupied slots. The main loop never ends;
  \<open>watch_runtime_run J os n\<close> is the watch after \<open>n\<close> rounds, and its properties hold for every \<open>n\<close>, so
  no bound is chosen.

  \<^bold>\<open>Parameters.\<close> The JSON library (\<open>json_lib\<close>), and in the record \<open>os\<close>: clocks, sleep, random numbers, sockets,
  LVGL's timer handler with the callbacks it makes, button edges, the answers of the GPIO and display
  drivers, the faults of the file operations. Nothing is assumed of them except where a
  statement says so (\<open>stream_socket\<close>, \<open>stream_os\<close>: a send adds to the stream what it reports).
  \<open>steady_clock\<close>: the uptime clock is monotonic. The callbacks of one call of the timer handler are fixed when it is called. The four random words of
  a session identifier are drawn in the order of the array; C leaves that order open.
  The disk at power-on is arbitrary but for \<open>disk_ok\<close>: a record that passes the checks is one
  whose strings are terminated, which the checks of \<open>watch_cache_valid\<close> themselves do not ensure.

  \<^bold>\<open>Not modelled.\<close> A loss of power during or after a save: the code calls no \<open>fsync\<close>, so what the disk then
  holds is open, and only what a load accepts of it is shown. Log messages and the values computed only for them (frame rates, render times); the inner
  working of LVGL, Zephyr and the drivers; the board configuration and device tree. Outside the
  watch program: the Rust host service, the protocol schema and its fixtures, the recovery toolkit, the
  scripts, and the unit tests.
\<close>

end
